theory Spec2Isabelle
  imports Complex_Main "HOL-Library.Sublist"
begin

section \<open>Strings\<close>

text \<open>
  A JavaScript string is modelled as a \<^typ>\<open>string\<close>: one \<^typ>\<open>char\<close> per code unit,
  restricted to the code units below 256. In that range the characters matched by the
  regular expression class \<open>\s\<close> (and stripped by \<open>trim\<close>) are the seven below.
\<close>

definition isSpace :: "char \<Rightarrow> bool" where
  "isSpace c = (c \<in> set [CHR 0x09, CHR 0x0A, CHR 0x0B, CHR 0x0C, CHR 0x0D, CHR 0x20, CHR 0xA0])"

abbreviation nonSpace :: "char \<Rightarrow> bool" where
  "nonSpace \<equiv> (\<lambda>c. \<not> isSpace c)"

text \<open>\<open>String.prototype.trim\<close>.\<close>

definition trim :: "string \<Rightarrow> string" where
  "trim s = rev (dropWhile isSpace (rev (dropWhile isSpace s)))"

text \<open>
  \<open>String.prototype.toLowerCase\<close> on the code units below 256, which are the characters
  of a string here: the ASCII capital letters, and the Latin-1 capital letters U+00C0 to
  U+00DE (the multiplication sign U+00D7 apart), each 32 below its small letter.
\<close>

definition toLowerChar :: "char \<Rightarrow> char" where
  "toLowerChar c =
     (case map_of (zip ''ABCDEFGHIJKLMNOPQRSTUVWXYZ'' ''abcdefghijklmnopqrstuvwxyz'') c of
        Some d \<Rightarrow> d
      | None \<Rightarrow>
          if 0xC0 \<le> (of_char c :: nat) \<and> (of_char c :: nat) \<le> 0xDE \<and> (of_char c :: nat) \<noteq> 0xD7
          then char_of ((of_char c :: nat) + 32)
          else c)"

definition toLowerCase :: "string \<Rightarrow> string" where
  "toLowerCase s = map toLowerChar s"

text \<open>\<open>String.prototype.includes\<close>: \<open>sub\<close> occurs in \<open>s\<close> as a contiguous substring.\<close>

fun str_includes :: "string \<Rightarrow> string \<Rightarrow> bool" where
  "str_includes [] sub = (sub = [])"
| "str_includes (c # cs) sub = (prefix sub (c # cs) \<or> str_includes cs sub)"


section \<open>model-config.ts\<close>

record ModelConfig =
  name :: string
  modelId :: string
  labels_hateful :: "string list"
  labels_normal :: "string list"
  confidenceThreshold :: real
  maxTextLength :: nat

definition HATE_SPEECH_MODELS :: "ModelConfig list" where
  "HATE_SPEECH_MODELS =
    [ \<lparr> name = ''Twitter Hate Speech Detector'',
        modelId = ''cardiffnlp/twitter-roberta-base-hate'',
        labels_hateful = [''hate'', ''offensive''],
        labels_normal = [''normal'', ''not-hate'', ''not-offensive''],
        confidenceThreshold = 0.7,
        maxTextLength = 512 \<rparr>,
      \<lparr> name = ''Toxic Comment Classifier'',
        modelId = ''unitary/toxic-bert'',
        labels_hateful = [''toxic'', ''severe_toxic'', ''obscene'', ''threat'', ''insult'',
                          ''identity_hate''],
        labels_normal = [''not-toxic'', ''not-severe_toxic'', ''not-obscene'', ''not-threat'',
                         ''not-insult'', ''not-identity_hate''],
        confidenceThreshold = 0.7,
        maxTextLength = 512 \<rparr>,
      \<lparr> name = ''Hate Speech Detector'',
        modelId = ''facebook/roberta-hate-speech-detector'',
        labels_hateful = [''hate'', ''offensive''],
        labels_normal = [''normal'', ''not-hate'', ''not-offensive''],
        confidenceThreshold = 0.7,
        maxTextLength = 512 \<rparr> ]"

definition DEFAULT_MODEL :: ModelConfig where
  "DEFAULT_MODEL = hd HATE_SPEECH_MODELS"

record TextPreprocessing =
  maxLength :: nat
  truncation :: bool
  removeUrls :: bool
  removeEmojis :: bool
  normalizeWhitespace :: bool
  preserveContext :: bool

definition TEXT_PREPROCESSING :: TextPreprocessing where
  "TEXT_PREPROCESSING =
     \<lparr> maxLength = 512, truncation = True, removeUrls = True, removeEmojis = False,
       normalizeWhitespace = True, preserveContext = True \<rparr>"

subsection \<open>The two regular-expression replacements of \<open>preprocessText\<close>\<close>

text \<open>
  \<open>matchAfter u t\<close>: the text \<open>t\<close> starts with the literal \<open>u\<close> followed by at least
  one non-space character; the result is what is left of \<open>t\<close> after the greedy run
  \<open>[^\s]+\<close>.
\<close>

definition matchAfter :: "string \<Rightarrow> string \<Rightarrow> string option" where
  "matchAfter u t =
     (if prefix u t then
        (case drop (length u) t of
           [] \<Rightarrow> None
         | c # r \<Rightarrow> if isSpace c then None else Some (dropWhile nonSpace r))
      else None)"

text \<open>A match of \<open>/https?:\/\/[^\s]+/\<close> anchored at the start of \<open>t\<close>.\<close>

definition urlMatch :: "string \<Rightarrow> string option" where
  "urlMatch t =
     (case matchAfter ''https://'' t of
        Some r \<Rightarrow> Some r
      | None \<Rightarrow> matchAfter ''http://'' t)"

text \<open>\<open>processed.replace(/https?:\/\/[^\s]+/g, '')\<close>: scan from the left, drop every match.\<close>

function removeUrlsRe :: "string \<Rightarrow> string" where
  "removeUrlsRe [] = []"
| "removeUrlsRe (c # cs) =
     (case urlMatch (c # cs) of
        Some r \<Rightarrow> removeUrlsRe r
      | None \<Rightarrow> c # removeUrlsRe cs)"
  by pat_completeness auto
termination
proof (relation "measure length")
  fix c cs r
  assume m: "urlMatch (c # cs) = Some r"
  then obtain u where "matchAfter u (c # cs) = Some r"
    by (auto simp: urlMatch_def split: option.splits)
  then obtain d r' where d: "drop (length u) (c # cs) = d # r'" and r: "r = dropWhile nonSpace r'"
    by (auto simp: matchAfter_def split: if_splits list.splits)
  have "length r \<le> length r'"
    using r by (simp add: length_dropWhile_le)
  moreover have "length (drop (length u) (c # cs)) = Suc (length r')"
    using d by simp
  ultimately have "length r < length (c # cs)"
    by simp
  then show "(r, c # cs) \<in> measure length"
    by simp
qed simp_all

text \<open>\<open>processed.replace(/\s+/g, ' ')\<close>: every maximal run of spaces becomes one blank.\<close>

function collapseWhitespace :: "string \<Rightarrow> string" where
  "collapseWhitespace [] = []"
| "collapseWhitespace (c # cs) =
     (if isSpace c then CHR '' '' # collapseWhitespace (dropWhile isSpace cs)
      else c # collapseWhitespace cs)"
  by pat_completeness auto
termination
  by (relation "measure length") (auto simp: length_dropWhile_le less_Suc_eq_le)

definition preprocessText :: "string \<Rightarrow> string" where
  "preprocessText text =
     (let processed = text;
          processed = (if removeUrls TEXT_PREPROCESSING then removeUrlsRe processed
                       else processed);
          processed = (if normalizeWhitespace TEXT_PREPROCESSING
                       then trim (collapseWhitespace processed) else processed);
          processed = (if maxLength TEXT_PREPROCESSING \<noteq> 0
                          \<and> length processed > maxLength TEXT_PREPROCESSING
                       then take (maxLength TEXT_PREPROCESSING) processed else processed)
      in processed)"


section \<open>background.ts: the classification engine\<close>

datatype Label = Hateful | Normal

record ClassificationResult =
  label :: Label
  confidence :: real
  result_keywords :: "string list"
  explanation :: string
  result_method :: string

record ExtensionSettings =
  enabled :: bool
  settings_confidence :: real
  selectedModel :: string

text \<open>
  One entry of the model's output, \<open>{label, score}\<close>. Either field may be absent: the
  code reads them as \<open>classification.label?.toLowerCase() || ''\<close> and
  \<open>classification.score || 0\<close>. Scores are reals (the comparisons, \<open>Math.min\<close> and
  \<open>Math.max\<close> of the code are exact on numbers).
\<close>

record RawClassification =
  raw_label :: "string option"
  raw_score :: "real option"

text \<open>What \<open>await this.classifier(processedText)\<close> resolves to.\<close>

datatype PipelineOutput =
    OutArray "RawClassification list"
  | OutObject RawClassification
  | OutOther

record Detection =
  det_id :: string
  det_text :: string
  det_confidence :: real
  det_timestamp :: nat
  det_keywords :: "string list"

record DetectionStats =
  detected :: nat
  filtered :: nat

text \<open>
  The service worker: its fields, the part of \<open>chrome.storage.local\<close> it owns, and a trace
  of the texts handed to the model (newest first).
\<close>

record BackgroundServiceWorker =
  settings :: ExtensionSettings
  classifier :: "(string \<Rightarrow> PipelineOutput option) option"
  isModelLoaded :: bool
  isModelLoading :: bool
  recentDetections :: "Detection list option"
  stats :: "DetectionStats option"
  inferenceLog :: "string list"

definition getCurrentModelConfig :: "BackgroundServiceWorker \<Rightarrow> ModelConfig" where
  "getCurrentModelConfig w =
     (case find (\<lambda>model. modelId model = selectedModel (settings w)) HATE_SPEECH_MODELS of
        Some model \<Rightarrow> model
      | None \<Rightarrow> DEFAULT_MODEL)"

subsection \<open>Printing numbers in template strings\<close>

definition digitChar :: "nat \<Rightarrow> char" where
  "digitChar d = ''0123456789'' ! (d mod 10)"

fun showNat :: "nat \<Rightarrow> string" where
  "showNat n = (if n < 10 then [digitChar n] else showNat (n div 10) @ [digitChar (n mod 10)])"

declare showNat.simps [simp del]

definition showInt :: "int \<Rightarrow> string" where
  "showInt i = (if i < 0 then CHR ''-'' # showNat (nat (- i)) else showNat (nat i))"

text \<open>\<open>Math.round\<close>: the nearest integer, halves rounded up.\<close>

definition Math_round :: "real \<Rightarrow> int" where
  "Math_round x = \<lfloor>x + 1 / 2\<rfloor>"

subsection \<open>extractKeywords\<close>

text \<open>\<open>text.split(/\s+/)\<close>.\<close>

function splitWhitespace :: "string \<Rightarrow> string list" where
  "splitWhitespace s =
     (case dropWhile nonSpace s of
        [] \<Rightarrow> [takeWhile nonSpace s]
      | c # r \<Rightarrow> takeWhile nonSpace s # splitWhitespace (dropWhile isSpace r))"
  by pat_completeness auto
termination
proof (relation "measure length")
  fix s :: string and c r
  assume d: "dropWhile nonSpace s = c # r"
  have "length (dropWhile isSpace r) \<le> length r"
    by (simp add: length_dropWhile_le)
  moreover have "length (c # r) \<le> length s"
    using length_dropWhile_le [of nonSpace s] d by simp
  ultimately show "(dropWhile isSpace r, s) \<in> measure length"
    by simp
qed simp

declare splitWhitespace.simps [simp del]

definition isWordChar :: "char \<Rightarrow> bool" where
  "isWordChar c =
     (c \<in> set ''abcdefghijklmnopqrstuvwxyzABCDEFGHIJKLMNOPQRSTUVWXYZ0123456789_'')"

definition commonWords :: "string list" where
  "commonWords =
     [''the'', ''a'', ''an'', ''and'', ''or'', ''but'', ''in'', ''on'', ''at'', ''to'', ''for'',
      ''of'', ''with'', ''by'', ''is'', ''are'', ''was'', ''were'', ''be'', ''been'', ''being'',
      ''have'', ''has'', ''had'', ''do'', ''does'', ''did'', ''will'', ''would'', ''could'',
      ''should'', ''may'', ''might'', ''can'', ''this'', ''that'', ''these'', ''those'',
      ''i'', ''you'', ''he'', ''she'', ''it'', ''we'', ''they'', ''me'', ''him'', ''her'',
      ''us'', ''them'', ''my'', ''your'', ''his'', ''her'', ''its'', ''our'', ''their'',
      ''mine'', ''yours'', ''hers'', ''ours'', ''theirs'']"

text \<open>\<open>wordCount.set(w, (wordCount.get(w) || 0) + 1)\<close> on a Map, which keeps insertion order.\<close>

fun bumpCount :: "string \<Rightarrow> (string \<times> nat) list \<Rightarrow> (string \<times> nat) list" where
  "bumpCount w [] = [(w, 1)]"
| "bumpCount w ((k, n) # kvs) =
     (if k = w then (k, n + 1) # kvs else (k, n) # bumpCount w kvs)"

definition countWord :: "(string \<times> nat) list \<Rightarrow> string \<Rightarrow> (string \<times> nat) list" where
  "countWord wordCount word =
     (let cleanWord = filter isWordChar word
      in if length cleanWord > 3 \<and> \<not> List.member commonWords cleanWord
         then bumpCount cleanWord wordCount else wordCount)"

definition extractKeywords :: "string \<Rightarrow> string list" where
  "extractKeywords text =
     (let wordsList = splitWhitespace (toLowerCase text);
          wordCount = foldl countWord [] wordsList;
          sortedWords = sort_key (\<lambda>(w, n). - int n) wordCount
      in map fst (take 5 sortedWords))"

subsection \<open>classifyWithAI\<close>

record Scan =
  maxConfidence :: real
  detectedLabel :: string
  isHateful :: bool

definition scanInit :: Scan where
  "scanInit = \<lparr> maxConfidence = 0, detectedLabel = ''normal'', isHateful = False \<rparr>"

text \<open>\<open>labels.some(l => label.includes(l))\<close>.\<close>

definition matchesAny :: "string list \<Rightarrow> string \<Rightarrow> bool" where
  "matchesAny labels lbl = list_ex (\<lambda>l. str_includes lbl l) labels"

definition labelOf :: "RawClassification \<Rightarrow> string" where
  "labelOf c = (case raw_label c of Some l \<Rightarrow> toLowerCase l | None \<Rightarrow> [])"

definition scoreOf :: "RawClassification \<Rightarrow> real" where
  "scoreOf c = (case raw_score c of Some x \<Rightarrow> x | None \<Rightarrow> 0)"

text \<open>One iteration of the loop over an array result.\<close>

definition scanStep :: "ModelConfig \<Rightarrow> Scan \<Rightarrow> RawClassification \<Rightarrow> Scan" where
  "scanStep cfg s c =
     (let lbl = labelOf c;
          conf = scoreOf c;
          s1 = (if matchesAny (labels_hateful cfg) lbl \<and> conf > maxConfidence s
                then \<lparr> maxConfidence = conf, detectedLabel = lbl, isHateful = True \<rparr>
                else s);
          s2 = (if matchesAny (labels_normal cfg) lbl \<and> conf > maxConfidence s1
                     \<and> \<not> isHateful s1
                then \<lparr> maxConfidence = conf, detectedLabel = lbl, isHateful = False \<rparr>
                else s1)
      in s2)"

text \<open>The branch for a single result object.\<close>

definition scanObject :: "ModelConfig \<Rightarrow> RawClassification \<Rightarrow> Scan" where
  "scanObject cfg c =
     (let lbl = labelOf c;
          conf = scoreOf c
      in if matchesAny (labels_hateful cfg) lbl
         then \<lparr> maxConfidence = conf, detectedLabel = lbl, isHateful = True \<rparr>
         else \<lparr> maxConfidence = conf, detectedLabel = lbl, isHateful = False \<rparr>)"

definition scanResult :: "ModelConfig \<Rightarrow> PipelineOutput \<Rightarrow> Scan" where
  "scanResult cfg out =
     (case out of
        OutArray cs \<Rightarrow> foldl (scanStep cfg) scanInit cs
      | OutObject c \<Rightarrow> scanObject cfg c
      | OutOther \<Rightarrow> scanInit)"

text \<open>
  \<open>Math.round(maxConfidence * 100)\<close> as it is printed in the explanation. The product is
  the exact one here; the code rounds the product of two doubles, which can fall on the
  other side of a half (0.575 * 100 is 57.49999999999999 there, and rounds to 57). The
  percentage is used in the explanation text only.
\<close>

definition percent :: "real \<Rightarrow> string" where
  "percent x = showInt (Math_round (x * 100))"

text \<open>The verdict computed after the scan, from the threshold in the settings.\<close>

definition verdict :: "ModelConfig \<Rightarrow> real \<Rightarrow> string \<Rightarrow> Scan \<Rightarrow> ClassificationResult" where
  "verdict cfg threshold processedText s =
     (if isHateful s \<and> maxConfidence s \<ge> threshold then
        \<lparr> label = Hateful,
          confidence = min 0.95 (maxConfidence s),
          result_keywords = extractKeywords processedText,
          explanation = ''AI model detected '' @ detectedLabel s @ '' content with ''
             @ percent (maxConfidence s) @ ''% confidence using '' @ name cfg,
          result_method = ''ai'' \<rparr>
      else
        \<lparr> label = Normal,
          confidence = max 0.5 (maxConfidence s),
          result_keywords = [],
          explanation = ''AI model classified as '' @ detectedLabel s @ '' content with ''
             @ percent (maxConfidence s) @ ''% confidence using '' @ name cfg,
          result_method = ''ai'' \<rparr>)"

text \<open>
  \<open>classifyWithAI\<close> returns the result, or \<open>None\<close> for the \<open>null\<close> of its \<open>catch\<close> (the
  classifier is \<open>null\<close>, or its call rejects), together with the worker, whose trace has
  grown by the text handed to the model.
\<close>

definition classifyWithAI ::
  "BackgroundServiceWorker \<Rightarrow> string \<Rightarrow> ClassificationResult option \<times> BackgroundServiceWorker" where
  "classifyWithAI w text =
     (let processedText = preprocessText text
      in case classifier w of
           None \<Rightarrow> (None, w)
         | Some run \<Rightarrow>
             (let w' = w \<lparr> inferenceLog := processedText # inferenceLog w \<rparr>
              in case run processedText of
                   None \<Rightarrow> (None, w')
                 | Some out \<Rightarrow>
                     (Some (verdict (getCurrentModelConfig w) (settings_confidence (settings w))
                              processedText (scanResult (getCurrentModelConfig w) out)),
                      w')))"

definition defaultClassification :: ClassificationResult where
  "defaultClassification =
     \<lparr> label = Normal,
       confidence = 0.5,
       result_keywords = [],
       explanation = ''AI model not available - defaulting to normal classification'',
       result_method = ''ai'' \<rparr>"

text \<open>
  \<open>classifyText\<close>: every exception of the AI path is caught, so the function always
  resolves; the result type has no error branch for that reason.
\<close>

definition classifyText ::
  "BackgroundServiceWorker \<Rightarrow> string \<Rightarrow> ClassificationResult \<times> BackgroundServiceWorker" where
  "classifyText w text =
     (if isModelLoaded w \<and> classifier w \<noteq> None then
        (case classifyWithAI w text of
           (Some aiResult, w') \<Rightarrow> (aiResult, w')
         | (None, w') \<Rightarrow> (defaultClassification, w'))
      else (defaultClassification, w))"


subsection \<open>Model lifecycle\<close>

definition initialWorker :: BackgroundServiceWorker where
  "initialWorker =
     \<lparr> settings = \<lparr> enabled = True, settings_confidence = 0.7,
                      selectedModel = modelId DEFAULT_MODEL \<rparr>,
       classifier = None,
       isModelLoaded = False,
       isModelLoading = False,
       recentDetections = None,
       stats = None,
       inferenceLog = [] \<rparr>"

text \<open>
  \<open>loadAIModel\<close>, in its two halves around \<open>await pipeline(...)\<close>: the guard and the
  loading flag, then the outcome (\<open>None\<close>: the load threw).
\<close>

definition loadAIModel_begin :: "BackgroundServiceWorker \<Rightarrow> BackgroundServiceWorker option" where
  "loadAIModel_begin w =
     (if isModelLoading w \<or> isModelLoaded w then None
      else Some (w \<lparr> isModelLoading := True \<rparr>))"

definition loadAIModel_finish ::
  "(string \<Rightarrow> PipelineOutput option) option \<Rightarrow> BackgroundServiceWorker \<Rightarrow> BackgroundServiceWorker" where
  "loadAIModel_finish outcome w =
     (case outcome of
        Some run \<Rightarrow> w \<lparr> classifier := Some run, isModelLoaded := True, isModelLoading := False \<rparr>
      | None \<Rightarrow> w \<lparr> isModelLoaded := False, isModelLoading := False \<rparr>)"

subsection \<open>handleClassificationRequest\<close>

text \<open>The values a message field can hold, as far as \<open>!text\<close> and \<open>typeof text\<close> tell them apart.\<close>

datatype JSValue =
    JSUndefined
  | JSNull
  | JSBoolean bool
  | JSNumber real
  | JSNaN
  | JSString string
  | JSObject

definition falsy :: "JSValue \<Rightarrow> bool" where
  "falsy v =
     (case v of
        JSUndefined \<Rightarrow> True
      | JSNull \<Rightarrow> True
      | JSBoolean b \<Rightarrow> \<not> b
      | JSNumber x \<Rightarrow> x = 0
      | JSNaN \<Rightarrow> True
      | JSString s \<Rightarrow> s = []
      | JSObject \<Rightarrow> False)"

definition typeof :: "JSValue \<Rightarrow> string" where
  "typeof v =
     (case v of
        JSUndefined \<Rightarrow> ''undefined''
      | JSNull \<Rightarrow> ''object''
      | JSBoolean b \<Rightarrow> ''boolean''
      | JSNumber x \<Rightarrow> ''number''
      | JSNaN \<Rightarrow> ''number''
      | JSString s \<Rightarrow> ''string''
      | JSObject \<Rightarrow> ''object'')"

record ClassificationRequest =
  req_text :: JSValue
  req_elementId :: string

record ClassificationResponse =
  success :: bool
  classification :: "ClassificationResult option"
  elementId :: string
  error :: "string option"
  originalText :: "string option"

text \<open>
  \<open>storeDetection\<close>. \<open>now\<close> is \<open>Date.now()\<close>; \<open>storageOk\<close> is false when one of its two
  storage calls rejects, which its \<open>catch\<close> logs and drops.
\<close>

definition storeDetection ::
  "nat \<Rightarrow> bool \<Rightarrow> string \<Rightarrow> ClassificationResult \<Rightarrow> BackgroundServiceWorker
     \<Rightarrow> BackgroundServiceWorker" where
  "storeDetection now storageOk text c w =
     (if \<not> storageOk then w
      else
        (let recent = (case recentDetections w of Some ds \<Rightarrow> ds | None \<Rightarrow> []);
             st = (case stats w of Some x \<Rightarrow> x | None \<Rightarrow> \<lparr> detected = 0, filtered = 0 \<rparr>);
             newDetection = \<lparr> det_id = ''detection-'' @ showNat now, det_text = text,
                              det_confidence = confidence c, det_timestamp = now,
                              det_keywords = result_keywords c \<rparr>;
             updatedDetections = take 50 (newDetection # recent);
             updatedStats = \<lparr> detected = detected st + 1, filtered = filtered st + 1 \<rparr>
         in w \<lparr> recentDetections := Some updatedDetections, stats := Some updatedStats \<rparr>))"

definition invalidTextResponse :: "string \<Rightarrow> ClassificationResponse" where
  "invalidTextResponse eid =
     \<lparr> success = False, classification = None, elementId = eid,
       error = Some ''Invalid text provided'', originalText = None \<rparr>"

text \<open>
  The handler returns the response passed to \<open>sendResponse\<close> and the worker afterwards.
  Its \<open>catch\<close> is never entered: \<open>classifyText\<close> and \<open>storeDetection\<close> catch their own
  exceptions.
\<close>

definition handleClassificationRequest ::
  "nat \<Rightarrow> bool \<Rightarrow> BackgroundServiceWorker \<Rightarrow> ClassificationRequest
     \<Rightarrow> ClassificationResponse \<times> BackgroundServiceWorker" where
  "handleClassificationRequest now storageOk w message =
     (if falsy (req_text message) \<or> typeof (req_text message) \<noteq> ''string''
      then (invalidTextResponse (req_elementId message), w)
      else
        (case req_text message of
           JSString text \<Rightarrow>
             (let (c, w1) = classifyText w text;
                  w2 = (if label c = Hateful then storeDetection now storageOk text c w1 else w1)
              in (\<lparr> success = True, classification = Some c,
                     elementId = req_elementId message, error = None,
                     originalText = Some text \<rparr>, w2))
         | _ \<Rightarrow> (invalidTextResponse (req_elementId message), w)))"


section \<open>feedback.ts: FeedbackManager\<close>

datatype FeedbackType = false_positive | false_negative | correct

record UserFeedback =
  fb_type :: FeedbackType
  fb_reason :: "string option"
  fb_category :: "string option"

record FeedbackContext =
  url :: string
  elementType :: string
  pageTitle :: string

record FeedbackMetadata =
  modelUsed :: string
  fb_confidenceThreshold :: real
  extensionVersion :: string

text \<open>\<open>Omit<FeedbackData, 'id' | 'timestamp'>\<close>, and \<open>FeedbackData\<close> itself.\<close>

record FeedbackInput =
  fb_originalText :: string
  fb_classification :: ClassificationResult
  userFeedback :: UserFeedback
  fb_context :: FeedbackContext
  metadata :: FeedbackMetadata

record FeedbackData = FeedbackInput +
  fb_id :: string
  fb_timestamp :: nat

record FeedbackStats =
  totalFeedback :: nat
  falsePositives :: nat
  falseNegatives :: nat
  correctClassifications :: nat
  accuracy :: real
  recentFeedback :: "FeedbackData list"

text \<open>
  The two keys of \<open>chrome.storage.local\<close> that the manager owns: \<open>sentinel_hg_feedback\<close>
  and \<open>sentinel_hg_feedback_stats\<close> (\<open>None\<close>: the key is absent).
\<close>

record FeedbackStore =
  stored_feedback :: "FeedbackData list option"
  stored_stats :: "FeedbackStats option"

definition emptyStore :: FeedbackStore where
  "emptyStore = \<lparr> stored_feedback = None, stored_stats = None \<rparr>"

text \<open>
  What one call of \<open>submitFeedback\<close> takes from its environment: \<open>Date.now()\<close>, the random
  suffix of \<open>generateId\<close>, and which of its four storage calls reject, in the order they
  are made: the read and the write of the log, then, inside \<open>updateStats\<close>, the read of
  \<open>getFeedbackStats\<close> and the write of the statistics.
\<close>

record StorageFaults =
  get_feedback_fails :: bool
  set_feedback_fails :: bool
  get_stats_fails :: bool
  set_stats_fails :: bool

record SubmitCall =
  call_now :: nat
  call_random :: string
  call_faults :: StorageFaults

definition noFaults :: StorageFaults where
  "noFaults = \<lparr> get_feedback_fails = False, set_feedback_fails = False,
                 get_stats_fails = False, set_stats_fails = False \<rparr>"

datatype StorageError = StorageReadFailed | StorageWriteFailed

definition generateId :: "nat \<Rightarrow> string \<Rightarrow> string" where
  "generateId now rand = ''feedback-'' @ showNat now @ ''-'' @ rand"

definition getDefaultStats :: FeedbackStats where
  "getDefaultStats =
     \<lparr> totalFeedback = 0, falsePositives = 0, falseNegatives = 0, correctClassifications = 0,
       accuracy = 0, recentFeedback = [] \<rparr>"

text \<open>\<open>getFeedbackStats\<close>; a rejected read is caught and answered with the default.\<close>

definition getFeedbackStats :: "bool \<Rightarrow> FeedbackStore \<Rightarrow> FeedbackStats" where
  "getFeedbackStats readFails store =
     (if readFails then getDefaultStats
      else
        (let st = (case stored_stats store of Some x \<Rightarrow> x | None \<Rightarrow> getDefaultStats);
             recent = (case stored_feedback store of Some fs \<Rightarrow> fs | None \<Rightarrow> [])
         in st \<lparr> recentFeedback := take 50 recent \<rparr>))"


text \<open>\<open>updateStats\<close>; it catches every exception, so it returns the store only.\<close>

definition updateStats :: "StorageFaults \<Rightarrow> FeedbackData \<Rightarrow> FeedbackStore \<Rightarrow> FeedbackStore" where
  "updateStats faults newFeedback store =
     (let currentStats = getFeedbackStats (get_stats_fails faults) store;
          currentStats = currentStats \<lparr> totalFeedback := totalFeedback currentStats + 1 \<rparr>;
          currentStats =
            (case fb_type (userFeedback newFeedback) of
               false_positive \<Rightarrow>
                 currentStats \<lparr> falsePositives := falsePositives currentStats + 1 \<rparr>
             | false_negative \<Rightarrow>
                 currentStats \<lparr> falseNegatives := falseNegatives currentStats + 1 \<rparr>
             | correct \<Rightarrow>
                 currentStats \<lparr> correctClassifications := correctClassifications currentStats + 1 \<rparr>);
          totalClassified = falsePositives currentStats + falseNegatives currentStats
                              + correctClassifications currentStats;
          currentStats = currentStats \<lparr> accuracy :=
              (if totalClassified > 0
               then real (correctClassifications currentStats) / real totalClassified
               else 0) \<rparr>
      in if set_stats_fails faults then store
         else store \<lparr> stored_stats := Some currentStats \<rparr>)"

definition makeFeedbackData :: "SubmitCall \<Rightarrow> FeedbackInput \<Rightarrow> FeedbackData" where
  "makeFeedbackData call feedback =
     FeedbackInput.extend feedback
       (FeedbackData.fields (generateId (call_now call) (call_random call)) (call_now call))"

text \<open>
  \<open>submitFeedback\<close> returns the error it rethrows (\<open>None\<close>: it resolves) and the store
  afterwards. A rejected storage call writes nothing.
\<close>

definition submitFeedback ::
  "SubmitCall \<Rightarrow> FeedbackInput \<Rightarrow> FeedbackStore \<Rightarrow> StorageError option \<times> FeedbackStore" where
  "submitFeedback call feedback store =
     (let feedbackData = makeFeedbackData call feedback
      in if get_feedback_fails (call_faults call) then (Some StorageReadFailed, store)
         else
           (let existingFeedback = (case stored_feedback store of Some fs \<Rightarrow> fs | None \<Rightarrow> []);
                updatedFeedback = take 1000 (feedbackData # existingFeedback)
            in if set_feedback_fails (call_faults call) then (Some StorageWriteFailed, store)
               else (None, updateStats (call_faults call) feedbackData
                             (store \<lparr> stored_feedback := Some updatedFeedback \<rparr>))))"

text \<open>\<open>clearFeedback\<close>: one \<open>remove\<close> of both keys; a rejection is rethrown.\<close>

definition clearFeedback :: "bool \<Rightarrow> FeedbackStore \<Rightarrow> StorageError option \<times> FeedbackStore" where
  "clearFeedback removeFails store =
     (if removeFails then (Some StorageWriteFailed, store) else (None, emptyStore))"

subsection \<open>JSON text\<close>


































text \<open>
  \<open>handleFeedbackSubmission\<close> of the service worker: the metadata is overwritten from the
  settings, and a rethrown error becomes \<open>{success: false, error}\<close>.
\<close>

record FeedbackResponse =
  fr_success :: bool
  fr_error :: "string option"

definition errorMessage :: "StorageError \<Rightarrow> string" where
  "errorMessage e =
     (case e of StorageReadFailed \<Rightarrow> ''storage read failed''
              | StorageWriteFailed \<Rightarrow> ''storage write failed'')"

definition handleFeedbackSubmission ::
  "BackgroundServiceWorker \<Rightarrow> SubmitCall \<Rightarrow> FeedbackInput \<Rightarrow> FeedbackStore
     \<Rightarrow> FeedbackResponse \<times> FeedbackStore" where
  "handleFeedbackSubmission w call feedback store =
     (let feedbackData = feedback \<lparr> metadata :=
            \<lparr> modelUsed = selectedModel (settings w),
              fb_confidenceThreshold = settings_confidence (settings w),
              extensionVersion = ''0.1.0'' \<rparr> \<rparr>
      in case submitFeedback call feedbackData store of
           (None, store') \<Rightarrow> (\<lparr> fr_success = True, fr_error = None \<rparr>, store')
         | (Some e, store') \<Rightarrow>
             (\<lparr> fr_success = False, fr_error = Some (errorMessage e) \<rparr>, store'))"

text \<open>
  A sequence of calls in which each call has settled before the next one starts. Calls
  that overlap are modelled further below.
\<close>

fun submitAll :: "(SubmitCall \<times> FeedbackInput) list \<Rightarrow> FeedbackStore \<Rightarrow> FeedbackStore" where
  "submitAll [] store = store"
| "submitAll ((call, feedback) # rest) store =
     submitAll rest (snd (submitFeedback call feedback store))"

subsection \<open>Calls that overlap\<close>

text \<open>
  The message listener does not wait for the handler of one message before it starts the
  next, and \<open>submitFeedback\<close> is suspended at each of its four storage calls, so two
  calls can overlap. A task is one call in progress: the entry it made, how many of its
  storage calls are completed, and what its two reads returned. The steps are those of a
  call whose storage calls all succeed.
\<close>

record SubmitTask =
  task_data :: FeedbackData
  task_pc :: nat
  task_existing :: "FeedbackData list"
  task_stats :: FeedbackStats

definition startTask :: "SubmitCall \<Rightarrow> FeedbackInput \<Rightarrow> SubmitTask" where
  "startTask call feedback =
     \<lparr> task_data = makeFeedbackData call feedback, task_pc = 0, task_existing = [],
       task_stats = getDefaultStats \<rparr>"

text \<open>What \<open>updateStats\<close> computes between its read and its write.\<close>

definition nextStats :: "FeedbackStats \<Rightarrow> FeedbackData \<Rightarrow> FeedbackStats" where
  "nextStats currentStats newFeedback =
     (let currentStats = currentStats \<lparr> totalFeedback := totalFeedback currentStats + 1 \<rparr>;
          currentStats =
            (case fb_type (userFeedback newFeedback) of
               false_positive \<Rightarrow>
                 currentStats \<lparr> falsePositives := falsePositives currentStats + 1 \<rparr>
             | false_negative \<Rightarrow>
                 currentStats \<lparr> falseNegatives := falseNegatives currentStats + 1 \<rparr>
             | correct \<Rightarrow>
                 currentStats \<lparr> correctClassifications := correctClassifications currentStats + 1 \<rparr>);
          totalClassified = falsePositives currentStats + falseNegatives currentStats
                              + correctClassifications currentStats
      in currentStats \<lparr> accuracy :=
              (if totalClassified > 0
               then real (correctClassifications currentStats) / real totalClassified
               else 0) \<rparr>)"

text \<open>The next storage call of a task, and what the task does up to the following one.\<close>

definition stepTask :: "SubmitTask \<Rightarrow> FeedbackStore \<Rightarrow> SubmitTask \<times> FeedbackStore" where
  "stepTask t store =
     (if task_pc t = 0 then
        (t \<lparr> task_existing := (case stored_feedback store of Some fs \<Rightarrow> fs | None \<Rightarrow> []),
             task_pc := 1 \<rparr>, store)
      else if task_pc t = 1 then
        (t \<lparr> task_pc := 2 \<rparr>,
         store \<lparr> stored_feedback := Some (take 1000 (task_data t # task_existing t)) \<rparr>)
      else if task_pc t = 2 then
        (t \<lparr> task_stats := getFeedbackStats False store, task_pc := 3 \<rparr>, store)
      else if task_pc t = 3 then
        (t \<lparr> task_pc := 4 \<rparr>,
         store \<lparr> stored_stats := Some (nextStats (task_stats t) (task_data t)) \<rparr>)
      else (t, store))"

text \<open>Two calls in progress; the schedule says which of them makes the next storage call.\<close>

fun runOverlapped ::
  "bool list \<Rightarrow> SubmitTask \<times> SubmitTask \<times> FeedbackStore \<Rightarrow> SubmitTask \<times> SubmitTask \<times> FeedbackStore" where
  "runOverlapped [] state = state"
| "runOverlapped (second # schedule) (t1, t2, store) =
     (if second
      then (case stepTask t2 store of (t2', store') \<Rightarrow> runOverlapped schedule (t1, t2', store'))
      else (case stepTask t1 store of (t1', store') \<Rightarrow> runOverlapped schedule (t1', t2, store')))"

text \<open>What each call of an awaited sequence rethrows (\<open>None\<close>: it resolves).\<close>

fun submitOutcomes ::
  "(SubmitCall \<times> FeedbackInput) list \<Rightarrow> FeedbackStore \<Rightarrow> StorageError option list" where
  "submitOutcomes [] store = []"
| "submitOutcomes ((call, feedback) # rest) store =
     fst (submitFeedback call feedback store)
       # submitOutcomes rest (snd (submitFeedback call feedback store))"


section \<open>content.ts: ContentScript\<close>

text \<open>
  The document as the content script reads it. An element has an identity (\<open>ref\<close>: the
  object that \<open>Set<Element>\<close> and \<open>Array.includes\<close> compare), a tag name, and what
  \<open>isElementVisible\<close> reads of its layout and computed style. Its \<open>data-hs-ext-id\<close>
  attribute, which the script writes, is part of the script's state below.
\<close>

record ElementInfo =
  ref :: nat
  tagName :: string
  offsetWidth :: nat
  offsetHeight :: nat
  style_display :: string
  style_visibility :: string
  style_opacity :: string
  rect_width :: nat
  rect_height :: nat

datatype Node = TextNode string | ElementNode ElementInfo "Node list"

type_synonym Element = "ElementInfo \<times> Node list"

fun nodeText :: "Node \<Rightarrow> string" where
  "nodeText (TextNode t) = t"
| "nodeText (ElementNode e kids) = concat (map nodeText kids)"

text \<open>
  \<open>element.textContent || htmlElement.innerText || ''\<close>: when \<open>textContent\<close> is empty the
  element renders no text either.
\<close>

definition textContent :: "Element \<Rightarrow> string" where
  "textContent el = concat (map nodeText (snd el))"

text \<open>
  The script: its fields, the \<open>dataset.hsExtId\<close> of every element, and the
  \<open>classifyText\<close> messages sent so far, oldest first, each \<open>(text, elementId)\<close>.
\<close>

record ContentScript =
  processedElements :: "nat set"
  uniqueIdCounter :: nat
  isEnabled :: bool
  hsExtId :: "nat \<Rightarrow> string option"
  outbox :: "(string \<times> string) list"


text \<open>The truth value of \<open>element.dataset.hsExtId\<close>.\<close>

definition hasExtId :: "ContentScript \<Rightarrow> nat \<Rightarrow> bool" where
  "hasExtId cs r = (case hsExtId cs r of Some v \<Rightarrow> v \<noteq> [] | None \<Rightarrow> False)"

definition isElementVisible :: "ElementInfo \<Rightarrow> bool" where
  "isElementVisible e =
     (if offsetWidth e = 0 \<or> offsetHeight e = 0 then False
      else if style_display e = ''none'' \<or> style_visibility e = ''hidden''
                \<or> style_opacity e = ''0'' then False
      else if rect_width e = 0 \<or> rect_height e = 0 then False
      else True)"

text \<open>
  \<open>isChildOfProcessedElement\<close> walks up the parents; \<open>ancestors\<close> are the \<open>ref\<close>s of the
  element's proper ancestors, nearest first.
\<close>

definition isChildOfProcessedElement :: "ContentScript \<Rightarrow> nat list \<Rightarrow> bool" where
  "isChildOfProcessedElement cs ancestors =
     list_ex (\<lambda>p. hasExtId cs p \<or> p \<in> processedElements cs) ancestors"

definition textElementTypes :: "string list" where
  "textElementTypes =
     [''P'', ''SPAN'', ''DIV'', ''H1'', ''H2'', ''H3'', ''H4'', ''H5'', ''H6'',
      ''LI'', ''BLOCKQUOTE'', ''ARTICLE'', ''SECTION'', ''MAIN'', ''ASIDE'',
      ''FIGCAPTION'', ''LABEL'', ''TD'', ''TH'']"

definition nonContentTypes :: "string list" where
  "nonContentTypes =
     [''SCRIPT'', ''STYLE'', ''NOSCRIPT'', ''META'', ''LINK'', ''INPUT'',
      ''TEXTAREA'', ''SELECT'', ''BUTTON'', ''FORM'', ''HEAD'', ''TITLE'']"

definition isTextElement :: "ContentScript \<Rightarrow> nat list \<Rightarrow> Element \<Rightarrow> bool" where
  "isTextElement cs ancestors el =
     (let trimmedText = trim (textContent el);
          hasSubstantialText = (length trimmedText \<ge> 10 \<and> length trimmedText \<le> 2000);
          isTextElementType = List.member textElementTypes (tagName (fst el));
          notProcessed = (\<not> hasExtId cs (ref (fst el))
                          \<and> ref (fst el) \<notin> processedElements cs);
          isVisible = isElementVisible (fst el);
          isContentElement = (\<not> List.member nonContentTypes (tagName (fst el)));
          notChildOfProcessed = (\<not> isChildOfProcessedElement cs ancestors)
      in hasSubstantialText \<and> isTextElementType \<and> notProcessed \<and> isVisible
         \<and> isContentElement \<and> notChildOfProcessed)"

text \<open>
  The text nodes below an element in document order, as the \<open>TreeWalker\<close> visits them:
  each with its parent element and the parent's ancestors.
\<close>

fun textNodesUnder :: "nat list \<Rightarrow> Node \<Rightarrow> (string \<times> Element \<times> nat list) list" where
  "textNodesUnder ancestors (TextNode t) = []"
| "textNodesUnder ancestors (ElementNode e kids) =
     concat (map (\<lambda>kid. case kid of
                           TextNode t \<Rightarrow> [(t, (e, kids), ancestors)]
                         | ElementNode e' kids' \<Rightarrow> textNodesUnder (ref e # ancestors) kid)
                 kids)"

text \<open>The \<open>acceptNode\<close> filter of the walker.\<close>

definition acceptNode :: "ContentScript \<Rightarrow> string \<times> Element \<times> nat list \<Rightarrow> bool" where
  "acceptNode cs tn =
     (case tn of (t, parent, ancestors) \<Rightarrow>
        if length (trim t) < 10 then False
        else if hasExtId cs (ref (fst parent)) \<or> ref (fst parent) \<in> processedElements cs
        then False
        else isTextElement cs ancestors parent)"

text \<open>\<open>elements.includes(parent)\<close>: the same element object.\<close>

definition includesElement :: "Element list \<Rightarrow> Element \<Rightarrow> bool" where
  "includesElement elements el = list_ex (\<lambda>x. ref (fst x) = ref (fst el)) elements"

text \<open>The body of the \<open>while (currentNode = walker.nextNode())\<close> loop.\<close>

definition pushParent ::
  "ContentScript \<Rightarrow> Element list \<Rightarrow> string \<times> Element \<times> nat list \<Rightarrow> Element list" where
  "pushParent cs elements tn =
     (case tn of (t, parent, ancestors) \<Rightarrow>
        if isTextElement cs ancestors parent \<and> \<not> includesElement elements parent
        then elements @ [parent] else elements)"

definition findTextElements :: "ContentScript \<Rightarrow> nat list \<Rightarrow> Element \<Rightarrow> Element list" where
  "findTextElements cs ancestors rootElement =
     foldl (pushParent cs) []
       (filter (acceptNode cs)
          (textNodesUnder ancestors (ElementNode (fst rootElement) (snd rootElement))))"

text \<open>\<open>classifyText\<close> of the content script: the message is sent.\<close>

definition sendClassifyText :: "ContentScript \<Rightarrow> string \<Rightarrow> string \<Rightarrow> ContentScript" where
  "sendClassifyText cs text eid = cs \<lparr> outbox := outbox cs @ [(text, eid)] \<rparr>"

definition makeUniqueId :: "nat \<Rightarrow> nat \<Rightarrow> string" where
  "makeUniqueId now counter = ''hs-ext-'' @ showNat now @ ''-'' @ showNat counter"

text \<open>The three assignments of \<open>processTextElement\<close> that mark the element.\<close>

definition markProcessed :: "ContentScript \<Rightarrow> nat \<Rightarrow> string \<Rightarrow> ContentScript" where
  "markProcessed cs r uniqueId =
     cs \<lparr> uniqueIdCounter := uniqueIdCounter cs + 1,
          hsExtId := (hsExtId cs) (r \<mapsto> uniqueId),
          processedElements := insert r (processedElements cs) \<rparr>"

text \<open>
  \<open>processTextElement\<close>. \<open>clock c\<close> is the value of \<open>Date.now()\<close> when the id with counter
  \<open>c\<close> is made.
\<close>

definition processTextElement :: "(nat \<Rightarrow> nat) \<Rightarrow> ContentScript \<Rightarrow> Element \<Rightarrow> ContentScript" where
  "processTextElement clock cs el =
     (let trimmedText = trim (textContent el)
      in if length trimmedText < 10 \<or> hasExtId cs (ref (fst el)) then cs
         else
           (let uniqueId = makeUniqueId (clock (uniqueIdCounter cs + 1)) (uniqueIdCounter cs + 1);
                cs1 = markProcessed cs (ref (fst el)) uniqueId
            in sendClassifyText cs1 trimmedText uniqueId))"

text \<open>
  \<open>textElements.forEach(...)\<close>, and the batches of \<open>processElementsInBatches\<close>, which make
  the same calls in the same order.
\<close>

definition processElements ::
  "(nat \<Rightarrow> nat) \<Rightarrow> ContentScript \<Rightarrow> Element list \<Rightarrow> ContentScript" where
  "processElements clock cs els = foldl (processTextElement clock) cs els"

definition processNewNode ::
  "(nat \<Rightarrow> nat) \<Rightarrow> ContentScript \<Rightarrow> nat list \<Rightarrow> Node \<Rightarrow> ContentScript" where
  "processNewNode clock cs ancestors node =
     (case node of
        TextNode t \<Rightarrow> cs
      | ElementNode e kids \<Rightarrow>
          processElements clock cs (findTextElements cs ancestors (e, kids)))"


section \<open>Notions used to state the properties\<close>

subsection \<open>The classification engine\<close>

text \<open>
  The two tests of the loop body: the (lower-cased) label contains one of the configured
  hateful labels, respectively one of the configured normal labels, as a substring.
\<close>

definition mapsHateful :: "ModelConfig \<Rightarrow> RawClassification \<Rightarrow> bool" where
  "mapsHateful cfg c = matchesAny (labels_hateful cfg) (labelOf c)"

definition mapsNormal :: "ModelConfig \<Rightarrow> RawClassification \<Rightarrow> bool" where
  "mapsNormal cfg c = matchesAny (labels_normal cfg) (labelOf c)"

text \<open>
  The rule as the specification words it: the maximum score per super-label (0 when no
  entry maps to it, the loop's initial value), hateful when the hateful maximum is
  strictly greater than the normal one and reaches the threshold.
\<close>

fun spec_maxScore :: "(RawClassification \<Rightarrow> bool) \<Rightarrow> RawClassification list \<Rightarrow> real" where
  "spec_maxScore P [] = 0"
| "spec_maxScore P (c # cs) = (if P c then max (scoreOf c) (spec_maxScore P cs) else spec_maxScore P cs)"

definition spec_hatefulVerdict :: "ModelConfig \<Rightarrow> real \<Rightarrow> RawClassification list \<Rightarrow> bool" where
  "spec_hatefulVerdict cfg threshold cs =
     (spec_maxScore (mapsHateful cfg) cs > spec_maxScore (mapsNormal cfg) cs
      \<and> spec_maxScore (mapsHateful cfg) cs \<ge> threshold)"

text \<open>Every score of the model output is at most 1 (scores are probabilities).\<close>

definition unitScores :: "PipelineOutput \<Rightarrow> bool" where
  "unitScores out =
     (case out of
        OutArray cs \<Rightarrow> list_all (\<lambda>c. scoreOf c \<le> 1) cs
      | OutObject c \<Rightarrow> scoreOf c \<le> 1
      | OutOther \<Rightarrow> True)"

text \<open>A request text that is missing, empty, or not a string.\<close>

definition malformedText :: "JSValue \<Rightarrow> bool" where
  "malformedText v = (case v of JSString s \<Rightarrow> s = [] | _ \<Rightarrow> True)"

text \<open>The worker after \<open>updateSettings\<close> with a new confidence threshold.\<close>

definition withThreshold :: "real \<Rightarrow> BackgroundServiceWorker \<Rightarrow> BackgroundServiceWorker" where
  "withThreshold t w = w \<lparr> settings := (settings w) \<lparr> settings_confidence := t \<rparr> \<rparr>"

text \<open>
  Example data: an output entry \<open>{label, score}\<close>, a model that answers every text with the
  same output, and a worker that has loaded it.
\<close>

definition rawItem :: "string \<Rightarrow> real \<Rightarrow> RawClassification" where
  "rawItem l x = \<lparr> raw_label = Some l, raw_score = Some x \<rparr>"

definition fixedModel :: "PipelineOutput \<Rightarrow> string \<Rightarrow> PipelineOutput option" where
  "fixedModel out text = Some out"

definition loadedWorker :: "string \<Rightarrow> real \<Rightarrow> PipelineOutput \<Rightarrow> BackgroundServiceWorker" where
  "loadedWorker m t out =
     loadAIModel_finish (Some (fixedModel out))
       (initialWorker \<lparr> settings := \<lparr> enabled = True, settings_confidence = t,
                                        selectedModel = m \<rparr> \<rparr>)"

text \<open>
  Some hateful entry has a positive score that is strictly greater than the score of
  every normal entry before it in the output.
\<close>

definition hatefulLeads :: "ModelConfig \<Rightarrow> RawClassification list \<Rightarrow> bool" where
  "hatefulLeads cfg cs =
     (\<exists>pre c post. cs = pre @ c # post \<and> mapsHateful cfg c \<and> 0 < scoreOf c
        \<and> (\<forall>d \<in> set pre. mapsNormal cfg d \<longrightarrow> scoreOf d < scoreOf c))"

text \<open>
  The maximum that the scan of a model output ends with: on an array, the hateful maximum
  when a hateful entry leads, else the normal maximum; on a single object, its score.
\<close>

definition observedMaximum :: "ModelConfig \<Rightarrow> PipelineOutput \<Rightarrow> real" where
  "observedMaximum cfg out =
     (case out of
        OutArray cs \<Rightarrow>
          if hatefulLeads cfg cs then spec_maxScore (mapsHateful cfg) cs
          else spec_maxScore (mapsNormal cfg) cs
      | OutObject c \<Rightarrow> scoreOf c
      | OutOther \<Rightarrow> 0)"


subsection \<open>The feedback store\<close>

text \<open>
  A call resolves when the read and the write of the log succeed. The calls of a sequence
  that resolve are its successful calls.
\<close>

definition resolves :: "SubmitCall \<Rightarrow> bool" where
  "resolves call =
     (\<not> get_feedback_fails (call_faults call) \<and> \<not> set_feedback_fails (call_faults call))"

definition resolved :: "(SubmitCall \<times> FeedbackInput) list \<Rightarrow> (SubmitCall \<times> FeedbackInput) list" where
  "resolved calls = filter (\<lambda>(call, feedback). resolves call) calls"

text \<open>No read or write of the statistics made by a call of the sequence rejects.\<close>

definition statsCallsSucceed :: "(SubmitCall \<times> FeedbackInput) list \<Rightarrow> bool" where
  "statsCallsSucceed calls =
     list_all (\<lambda>(call, feedback). \<not> resolves call
                 \<or> (\<not> get_stats_fails (call_faults call) \<and> \<not> set_stats_fails (call_faults call)))
       calls"

text \<open>Two schedules for two calls: taking turns, and one call after the other.\<close>

definition alternating :: "bool list" where
  "alternating = [False, True, False, True, False, True, False, True]"

definition oneAfterTheOther :: "bool list" where
  "oneAfterTheOther = [False, False, False, False, True, True, True, True]"

text \<open>The counters and the log as a full scan of the submissions gives them.\<close>

definition countType :: "FeedbackType \<Rightarrow> (SubmitCall \<times> FeedbackInput) list \<Rightarrow> nat" where
  "countType ty calls = length (filter (\<lambda>(call, feedback). fb_type (userFeedback feedback) = ty) calls)"


text \<open>The accuracy as the specification defines it from the three counters.\<close>

definition spec_accuracy :: "FeedbackStats \<Rightarrow> real" where
  "spec_accuracy st =
     (if correctClassifications st + falsePositives st + falseNegatives st > 0
      then real (correctClassifications st)
             / real (correctClassifications st + falsePositives st + falseNegatives st)
      else 0)"

text \<open>What is stored, with the defaults of an absent key.\<close>

definition statsOf :: "FeedbackStore \<Rightarrow> FeedbackStats" where
  "statsOf store = (case stored_stats store of Some x \<Rightarrow> x | None \<Rightarrow> getDefaultStats)"

definition logOf :: "FeedbackStore \<Rightarrow> FeedbackData list" where
  "logOf store = (case stored_feedback store of Some fs \<Rightarrow> fs | None \<Rightarrow> [])"

text \<open>Example data for the feedback store.\<close>

definition exampleFeedback :: "FeedbackType \<Rightarrow> FeedbackInput" where
  "exampleFeedback ty =
     \<lparr> fb_originalText = ''You are an idiot and I hate this'',
       fb_classification = \<lparr> label = Hateful, confidence = 0.82, result_keywords = [''idiot'', ''hate''],
                              explanation = ''AI model detected toxic content'', result_method = ''ai'' \<rparr>,
       userFeedback = \<lparr> fb_type = ty, fb_reason = None, fb_category = None \<rparr>,
       fb_context = \<lparr> url = ''https://example.org/'', elementType = ''P'', pageTitle = ''Example'' \<rparr>,
       metadata = \<lparr> modelUsed = ''unitary/toxic-bert'', fb_confidenceThreshold = 0.7,
                    extensionVersion = ''0.1.0'' \<rparr> \<rparr>"

definition exampleCall :: "nat \<Rightarrow> StorageFaults \<Rightarrow> SubmitCall" where
  "exampleCall now faults = \<lparr> call_now = now, call_random = ''k3j9x0q1z'', call_faults = faults \<rparr>"

definition statsWriteFails :: StorageFaults where
  "statsWriteFails = noFaults \<lparr> set_stats_fails := True \<rparr>"

definition logReadFails :: StorageFaults where
  "logReadFails = noFaults \<lparr> get_feedback_fails := True \<rparr>"

text \<open>The total and the one counter matching the feedback type, incremented.\<close>

definition bumped :: "FeedbackType \<Rightarrow> FeedbackStats \<Rightarrow> FeedbackStats" where
  "bumped ty st =
     (case ty of
        false_positive \<Rightarrow> st \<lparr> totalFeedback := totalFeedback st + 1, falsePositives := falsePositives st + 1 \<rparr>
      | false_negative \<Rightarrow> st \<lparr> totalFeedback := totalFeedback st + 1, falseNegatives := falseNegatives st + 1 \<rparr>
      | correct \<Rightarrow> st \<lparr> totalFeedback := totalFeedback st + 1,
                          correctClassifications := correctClassifications st + 1 \<rparr>)"











subsection \<open>Preprocessed text\<close>

text \<open>
  The four properties of a preprocessed text: no substring matching \<open>https?://\<close> followed
  by a non-space character, no two consecutive space characters, no space at the start,
  none at the end.
\<close>

definition urlAt :: "string \<Rightarrow> bool" where
  "urlAt t = (urlMatch t \<noteq> None)"

fun containsUrl :: "string \<Rightarrow> bool" where
  "containsUrl [] = False"
| "containsUrl (c # cs) = (urlAt (c # cs) \<or> containsUrl cs)"

fun hasSpaceRun :: "string \<Rightarrow> bool" where
  "hasSpaceRun (a # b # cs) = ((isSpace a \<and> isSpace b) \<or> hasSpaceRun (b # cs))"
| "hasSpaceRun cs = False"

definition leadingSpace :: "string \<Rightarrow> bool" where
  "leadingSpace s = (case s of [] \<Rightarrow> False | c # cs \<Rightarrow> isSpace c)"

definition trailingSpace :: "string \<Rightarrow> bool" where
  "trailingSpace s = leadingSpace (rev s)"

text \<open>The text after the first two steps of \<open>preprocessText\<close>, before truncation.\<close>

definition normalizedText :: "string \<Rightarrow> string" where
  "normalizedText text = trim (collapseWhitespace (removeUrlsRe text))"


subsection \<open>The content script\<close>

text \<open>
  An element is marked when it carries an id or is in the processed set; the requests
  for an element are the sent messages that carry its id.
\<close>

definition marked :: "ContentScript \<Rightarrow> nat \<Rightarrow> bool" where
  "marked cs r = (hasExtId cs r \<or> r \<in> processedElements cs)"









section \<open>Properties of the classification engine\<close>

lemma scanStep_cases:
  "scanStep cfg s c =
     (if mapsHateful cfg c \<and> scoreOf c > maxConfidence s
      then \<lparr> maxConfidence = scoreOf c, detectedLabel = labelOf c, isHateful = True \<rparr>
      else if mapsNormal cfg c \<and> scoreOf c > maxConfidence s \<and> \<not> isHateful s
      then \<lparr> maxConfidence = scoreOf c, detectedLabel = labelOf c, isHateful = False \<rparr>
      else s)"
  by (simp add: scanStep_def mapsHateful_def mapsNormal_def Let_def)

lemma spec_maxScore_nonneg: "0 \<le> spec_maxScore P cs"
  by (induction cs) auto

lemma spec_maxScore_upper: "d \<in> set cs \<Longrightarrow> P d \<Longrightarrow> scoreOf d \<le> spec_maxScore P cs"
  by (induction cs) auto

lemma spec_maxScore_attained:
  "0 < spec_maxScore P cs \<Longrightarrow> \<exists>c \<in> set cs. P c \<and> scoreOf c = spec_maxScore P cs"
  by (induction cs) (auto simp: max_def split: if_splits)

text \<open>Once the scan is hateful it stays so, and then only hateful entries raise the maximum.\<close>

lemma scan_hateful_sticky:
  "isHateful s \<Longrightarrow> 0 \<le> maxConfidence s \<Longrightarrow>
     isHateful (foldl (scanStep cfg) s cs)
     \<and> maxConfidence (foldl (scanStep cfg) s cs) = max (maxConfidence s) (spec_maxScore (mapsHateful cfg) cs)"
proof (induction cs arbitrary: s)
  case Nil
  then show ?case by (simp add: max_def)
next
  case (Cons c cs)
  let ?s' = "scanStep cfg s c"
  have h: "isHateful ?s'" and m: "maxConfidence ?s' = (if mapsHateful cfg c then max (maxConfidence s) (scoreOf c) else maxConfidence s)"
    using Cons.prems by (auto simp: scanStep_cases)
  have "0 \<le> maxConfidence ?s'" using m Cons.prems by auto
  from Cons.IH [OF h this] show ?case
    using m by (auto simp: max_def)
qed

lemma scan_turns_hateful:
  "\<not> isHateful s \<Longrightarrow> 0 \<le> maxConfidence s \<Longrightarrow> isHateful (foldl (scanStep cfg) s cs) \<Longrightarrow>
     maxConfidence (foldl (scanStep cfg) s cs) = spec_maxScore (mapsHateful cfg) cs
     \<and> maxConfidence s < spec_maxScore (mapsHateful cfg) cs
     \<and> (\<exists>pre c post. cs = pre @ c # post \<and> mapsHateful cfg c \<and> maxConfidence s < scoreOf c
          \<and> (\<forall>d \<in> set pre. mapsNormal cfg d \<longrightarrow> scoreOf d < scoreOf c))"
proof (induction cs arbitrary: s)
  case Nil
  then show ?case by simp
next
  case (Cons c cs)
  let ?s' = "scanStep cfg s c"
  show ?case
  proof (cases "mapsHateful cfg c \<and> scoreOf c > maxConfidence s")
    case True
    then have s': "?s' = \<lparr> maxConfidence = scoreOf c, detectedLabel = labelOf c, isHateful = True \<rparr>"
      by (simp add: scanStep_cases)
    have "0 \<le> scoreOf c" using True Cons.prems by simp
    with scan_hateful_sticky [of ?s' cfg cs] s'
    have "maxConfidence (foldl (scanStep cfg) ?s' cs) = max (scoreOf c) (spec_maxScore (mapsHateful cfg) cs)"
      by simp
    moreover have "c # cs = [] @ c # cs" by simp
    ultimately show ?thesis using True
      by (auto simp: max_def intro!: exI [of _ "[]"])
  next
    case False
    then have nh: "\<not> isHateful ?s'"
      and m: "maxConfidence ?s' = (if mapsNormal cfg c \<and> scoreOf c > maxConfidence s then scoreOf c else maxConfidence s)"
      using Cons.prems by (auto simp: scanStep_cases)
    have ge: "maxConfidence s \<le> maxConfidence ?s'" using m by auto
    then have "0 \<le> maxConfidence ?s'" using Cons.prems by simp
    from Cons.IH [OF nh this] Cons.prems(3)
    obtain pre d post where eq: "maxConfidence (foldl (scanStep cfg) ?s' cs) = spec_maxScore (mapsHateful cfg) cs"
      and lt: "maxConfidence ?s' < spec_maxScore (mapsHateful cfg) cs"
      and dec: "cs = pre @ d # post" "mapsHateful cfg d" "maxConfidence ?s' < scoreOf d"
               "\<forall>e \<in> set pre. mapsNormal cfg e \<longrightarrow> scoreOf e < scoreOf d"
      by auto
    have c_le: "mapsNormal cfg c \<Longrightarrow> scoreOf c \<le> maxConfidence ?s'"
      using m by auto
    have hc: "mapsHateful cfg c \<Longrightarrow> scoreOf c \<le> maxConfidence s"
      using False by auto
    have ms: "spec_maxScore (mapsHateful cfg) (c # cs) = spec_maxScore (mapsHateful cfg) cs"
      using hc ge lt by (auto simp: max_def)
    have "c # cs = (c # pre) @ d # post" using dec by simp
    moreover have "\<forall>e \<in> set (c # pre). mapsNormal cfg e \<longrightarrow> scoreOf e < scoreOf d"
      using dec c_le by auto
    moreover have "maxConfidence s < scoreOf d" using ge dec by simp
    ultimately have "\<exists>pre c' post. c # cs = pre @ c' # post \<and> mapsHateful cfg c' \<and> maxConfidence s < scoreOf c'
          \<and> (\<forall>d \<in> set pre. mapsNormal cfg d \<longrightarrow> scoreOf d < scoreOf c')"
      using dec(2) by blast
    then show ?thesis using eq lt ge ms by simp
  qed
qed

lemma scan_leads_hateful:
  "cs = pre @ c # post \<Longrightarrow> mapsHateful cfg c \<Longrightarrow> maxConfidence s < scoreOf c \<Longrightarrow>
   \<forall>d \<in> set pre. mapsNormal cfg d \<longrightarrow> scoreOf d < scoreOf c \<Longrightarrow> 0 \<le> maxConfidence s \<Longrightarrow>
   isHateful (foldl (scanStep cfg) s cs)"
proof (induction pre arbitrary: s cs)
  case Nil
  then have "isHateful (scanStep cfg s c)" "0 \<le> maxConfidence (scanStep cfg s c)"
    by (auto simp: scanStep_cases)
  then show ?case using scan_hateful_sticky [of "scanStep cfg s c" cfg post] Nil by simp
next
  case (Cons d pre)
  let ?s' = "scanStep cfg s d"
  show ?case
  proof (cases "isHateful ?s'")
    case True
    moreover have "0 \<le> maxConfidence ?s'" using Cons.prems by (auto simp: scanStep_cases)
    ultimately show ?thesis using scan_hateful_sticky [of ?s' cfg "pre @ c # post"] Cons.prems by simp
  next
    case False
    have "maxConfidence ?s' < scoreOf c" "0 \<le> maxConfidence ?s'"
      using Cons.prems False by (auto simp: scanStep_cases split: if_splits)
    from Cons.IH [OF refl Cons.prems(2) this(1) _ this(2)] Cons.prems show ?thesis by simp
  qed
qed

lemma scan_hateful_iff:
  "isHateful (foldl (scanStep cfg) scanInit cs) \<longleftrightarrow> hatefulLeads cfg cs"
  unfolding hatefulLeads_def
proof
  assume "isHateful (foldl (scanStep cfg) scanInit cs)"
  from scan_turns_hateful [of scanInit cfg cs, OF _ _ this]
  show "\<exists>pre c post. cs = pre @ c # post \<and> mapsHateful cfg c \<and> 0 < scoreOf c
        \<and> (\<forall>d \<in> set pre. mapsNormal cfg d \<longrightarrow> scoreOf d < scoreOf c)"
    by (simp add: scanInit_def)
next
  assume "\<exists>pre c post. cs = pre @ c # post \<and> mapsHateful cfg c \<and> 0 < scoreOf c
        \<and> (\<forall>d \<in> set pre. mapsNormal cfg d \<longrightarrow> scoreOf d < scoreOf c)"
  then obtain pre c post where "cs = pre @ c # post" "mapsHateful cfg c" "0 < scoreOf c"
     "\<forall>d \<in> set pre. mapsNormal cfg d \<longrightarrow> scoreOf d < scoreOf c" by blast
  then show "isHateful (foldl (scanStep cfg) scanInit cs)"
    using scan_leads_hateful [of cs pre c post cfg scanInit] by (simp add: scanInit_def)
qed

lemma scan_hateful_max:
  "isHateful (foldl (scanStep cfg) scanInit cs) \<Longrightarrow>
   maxConfidence (foldl (scanStep cfg) scanInit cs) = spec_maxScore (mapsHateful cfg) cs"
  using scan_turns_hateful [of scanInit cfg cs] by (simp add: scanInit_def)

lemma spec_verdict_leads:
  assumes "spec_maxScore (mapsHateful cfg) cs > spec_maxScore (mapsNormal cfg) cs"
  shows "hatefulLeads cfg cs"
proof -
  have pos: "0 < spec_maxScore (mapsHateful cfg) cs"
    using assms spec_maxScore_nonneg [of "mapsNormal cfg" cs] by simp
  then obtain c where c: "c \<in> set cs" "mapsHateful cfg c" "scoreOf c = spec_maxScore (mapsHateful cfg) cs"
    using spec_maxScore_attained by blast
  then obtain pre post where eq: "cs = pre @ c # post" by (meson split_list)
  have "\<forall>d \<in> set pre. mapsNormal cfg d \<longrightarrow> scoreOf d < scoreOf c"
  proof (intro ballI impI)
    fix d assume "d \<in> set pre" "mapsNormal cfg d"
    then have "scoreOf d \<le> spec_maxScore (mapsNormal cfg) cs"
      using eq spec_maxScore_upper [of d cs "mapsNormal cfg"] by simp
    then show "scoreOf d < scoreOf c" using assms c by simp
  qed
  moreover have "0 < scoreOf c" using c pos by simp
  ultimately show ?thesis unfolding hatefulLeads_def using eq c(2) by blast
qed

lemma label_verdict: "label (verdict cfg t p s) = Hateful \<longleftrightarrow> isHateful s \<and> t \<le> maxConfidence s"
  by (simp add: verdict_def)

lemma classifyWithAI_result:
  "classifier w = Some run \<Longrightarrow> run (preprocessText text) = Some out \<Longrightarrow>
   fst (classifyWithAI w text) =
     Some (verdict (getCurrentModelConfig w) (settings_confidence (settings w)) (preprocessText text)
             (scanResult (getCurrentModelConfig w) out))"
  by (simp add: classifyWithAI_def Let_def)

text \<open>
  Claim C1 (as amended). On an array output in which no label matches both label sets,
  \<open>classifyWithAI\<close> returns a hateful verdict if and only if the maximum hateful score
  reaches the threshold and some hateful entry has a positive score strictly greater than
  every normal score that precedes it in the output: a hateful entry, once taken, is
  never displaced by a later normal entry. The rule of the specification (hateful maximum
  strictly above the normal maximum, and at least the threshold) is therefore sufficient
  for a hateful verdict, but not necessary.
\<close>

theorem classifyWithAI_hateful_iff:
  assumes "classifier w = Some run"
    and "run (preprocessText text) = Some (OutArray cs)"
    and "\<forall>c \<in> set cs. \<not> (mapsHateful (getCurrentModelConfig w) c \<and> mapsNormal (getCurrentModelConfig w) c)"
  shows "(map_option label (fst (classifyWithAI w text)) = Some Hateful \<longleftrightarrow>
           settings_confidence (settings w) \<le> spec_maxScore (mapsHateful (getCurrentModelConfig w)) cs
           \<and> hatefulLeads (getCurrentModelConfig w) cs)
       \<and> (spec_hatefulVerdict (getCurrentModelConfig w) (settings_confidence (settings w)) cs
            \<longrightarrow> map_option label (fst (classifyWithAI w text)) = Some Hateful)"
proof -
  let ?cfg = "getCurrentModelConfig w"
  let ?fin = "foldl (scanStep ?cfg) scanInit cs"
  have r: "map_option label (fst (classifyWithAI w text)) = Some Hateful \<longleftrightarrow>
             isHateful ?fin \<and> settings_confidence (settings w) \<le> maxConfidence ?fin"
    using classifyWithAI_result [OF assms(1,2)] by (simp add: label_verdict scanResult_def)
  have a: "isHateful ?fin \<and> settings_confidence (settings w) \<le> maxConfidence ?fin \<longleftrightarrow>
           settings_confidence (settings w) \<le> spec_maxScore (mapsHateful ?cfg) cs \<and> hatefulLeads ?cfg cs"
    using scan_hateful_iff [of ?cfg cs] scan_hateful_max [of ?cfg cs] by auto
  have b: "spec_hatefulVerdict ?cfg (settings_confidence (settings w)) cs \<Longrightarrow>
           settings_confidence (settings w) \<le> spec_maxScore (mapsHateful ?cfg) cs \<and> hatefulLeads ?cfg cs"
    using spec_verdict_leads [of ?cfg cs] by (simp add: spec_hatefulVerdict_def)
  show ?thesis using r a b by blast
qed


text \<open>The definitions that evaluate the examples.\<close>

lemmas example_defs = loadedWorker_def loadAIModel_finish_def initialWorker_def fixedModel_def
  rawItem_def classifyWithAI_def getCurrentModelConfig_def HATE_SPEECH_MODELS_def
  DEFAULT_MODEL_def scanResult_def scanStep_def scanInit_def scanObject_def matchesAny_def
  labelOf_def scoreOf_def toLowerCase_def toLowerChar_def verdict_def Let_def

theorem classifyWithAI_hateful_iff_witness:
  "classifier (loadedWorker ''cardiffnlp/twitter-roberta-base-hate'' 0.7
       (OutArray [rawItem ''hate'' 0.8, rawItem ''normal'' 0.9]))
     = Some (fixedModel (OutArray [rawItem ''hate'' 0.8, rawItem ''normal'' 0.9]))
   \<and> fixedModel (OutArray [rawItem ''hate'' 0.8, rawItem ''normal'' 0.9])
         (preprocessText ''hello there'')
       = Some (OutArray [rawItem ''hate'' 0.8, rawItem ''normal'' 0.9])
   \<and> list_all (\<lambda>c. \<not> (mapsHateful (getCurrentModelConfig
          (loadedWorker ''cardiffnlp/twitter-roberta-base-hate'' 0.7
             (OutArray [rawItem ''hate'' 0.8, rawItem ''normal'' 0.9]))) c
        \<and> mapsNormal (getCurrentModelConfig
          (loadedWorker ''cardiffnlp/twitter-roberta-base-hate'' 0.7
             (OutArray [rawItem ''hate'' 0.8, rawItem ''normal'' 0.9]))) c))
       [rawItem ''hate'' 0.8, rawItem ''normal'' 0.9]
   \<and> hatefulLeads (getCurrentModelConfig
          (loadedWorker ''cardiffnlp/twitter-roberta-base-hate'' 0.7
             (OutArray [rawItem ''hate'' 0.8, rawItem ''normal'' 0.9])))
        [rawItem ''hate'' 0.8, rawItem ''normal'' 0.9]
   \<and> spec_maxScore (mapsHateful (getCurrentModelConfig
          (loadedWorker ''cardiffnlp/twitter-roberta-base-hate'' 0.7
             (OutArray [rawItem ''hate'' 0.8, rawItem ''normal'' 0.9]))))
        [rawItem ''hate'' 0.8, rawItem ''normal'' 0.9] = 0.8"
proof -
  let ?cs = "[rawItem ''hate'' 0.8, rawItem ''normal'' 0.9]"
  let ?w = "loadedWorker ''cardiffnlp/twitter-roberta-base-hate'' 0.7 (OutArray ?cs)"
  have h1: "classifier ?w = Some (fixedModel (OutArray ?cs))"
    by (simp add: loadedWorker_def loadAIModel_finish_def)
  have h2: "fixedModel (OutArray ?cs) (preprocessText ''hello there'') = Some (OutArray ?cs)"
    by (simp add: fixedModel_def)
  have h3: "list_all (\<lambda>c. \<not> (mapsHateful (getCurrentModelConfig ?w) c
               \<and> mapsNormal (getCurrentModelConfig ?w) c)) ?cs"
    by (simp add: example_defs mapsHateful_def mapsNormal_def)
  then have h3': "\<forall>c \<in> set ?cs. \<not> (mapsHateful (getCurrentModelConfig ?w) c
               \<and> mapsNormal (getCurrentModelConfig ?w) c)"
    by (simp only: list_all_iff)
  have l: "map_option label (fst (classifyWithAI ?w ''hello there'')) = Some Hateful"
    by (simp add: example_defs)
  have m: "spec_maxScore (mapsHateful (getCurrentModelConfig ?w)) ?cs = 0.8"
    by (simp add: example_defs mapsHateful_def)
  from classifyWithAI_hateful_iff [OF h1 h2 h3'] l
  have "hatefulLeads (getCurrentModelConfig ?w) ?cs"
    by blast
  with h1 h2 h3 m show ?thesis
    by blast
qed

text \<open>
  The claim as stated fails. With the output \<open>[hate 0.5, normal 0.5]\<close> and threshold 0.5
  the two maxima are equal and the verdict is hateful. With the output
  \<open>[hate 0.8, normal 0.9]\<close> and threshold 0.7 the verdict is hateful although the hateful
  maximum is below the normal maximum.
\<close>

theorem C1_counterexample:
  "map_option label (fst (classifyWithAI
      (loadedWorker ''cardiffnlp/twitter-roberta-base-hate'' 0.5
         (OutArray [rawItem ''hate'' 0.5, rawItem ''normal'' 0.5])) ''hello there'')) = Some Hateful
   \<and> spec_maxScore (mapsHateful (getCurrentModelConfig
          (loadedWorker ''cardiffnlp/twitter-roberta-base-hate'' 0.5
             (OutArray [rawItem ''hate'' 0.5, rawItem ''normal'' 0.5]))))
        [rawItem ''hate'' 0.5, rawItem ''normal'' 0.5]
       = spec_maxScore (mapsNormal (getCurrentModelConfig
          (loadedWorker ''cardiffnlp/twitter-roberta-base-hate'' 0.5
             (OutArray [rawItem ''hate'' 0.5, rawItem ''normal'' 0.5]))))
        [rawItem ''hate'' 0.5, rawItem ''normal'' 0.5]
   \<and> \<not> spec_hatefulVerdict
         (getCurrentModelConfig (loadedWorker ''cardiffnlp/twitter-roberta-base-hate'' 0.5
            (OutArray [rawItem ''hate'' 0.5, rawItem ''normal'' 0.5])))
         0.5 [rawItem ''hate'' 0.5, rawItem ''normal'' 0.5]
   \<and> map_option label (fst (classifyWithAI
      (loadedWorker ''cardiffnlp/twitter-roberta-base-hate'' 0.7
         (OutArray [rawItem ''hate'' 0.8, rawItem ''normal'' 0.9])) ''hello there'')) = Some Hateful
   \<and> \<not> spec_hatefulVerdict
         (getCurrentModelConfig (loadedWorker ''cardiffnlp/twitter-roberta-base-hate'' 0.7
            (OutArray [rawItem ''hate'' 0.8, rawItem ''normal'' 0.9])))
         0.7 [rawItem ''hate'' 0.8, rawItem ''normal'' 0.9]"
  by (simp add: example_defs mapsHateful_def mapsNormal_def spec_hatefulVerdict_def)

text \<open>
  Labels are matched by substring. The normal label \<open>not-hate\<close> contains the hateful label
  \<open>hate\<close>, so an output that consists of it alone is classified hateful.
\<close>

lemma substring_label_example:
  "map_option label (fst (classifyWithAI
      (loadedWorker ''cardiffnlp/twitter-roberta-base-hate'' 0.7
         (OutArray [rawItem ''NOT-HATE'' 0.98])) ''hello there'')) = Some Hateful"
  by (simp add: example_defs)

text \<open>
  Claim C4. For a fixed text and a fixed model, raising the confidence threshold never
  turns a normal verdict of \<open>classifyWithAI\<close> into a hateful one.
\<close>

theorem threshold_monotone:
  assumes "t1 \<le> t2"
    and "map_option label (fst (classifyWithAI (withThreshold t1 w) text)) = Some Normal"
  shows "map_option label (fst (classifyWithAI (withThreshold t2 w) text)) = Some Normal"
proof -
  have cfg: "getCurrentModelConfig (withThreshold t w) = getCurrentModelConfig w" for t
    by (simp add: getCurrentModelConfig_def withThreshold_def)
  have nl: "label (verdict c t p s) = Normal \<longleftrightarrow> \<not> (isHateful s \<and> t \<le> maxConfidence s)" for c t p s
    by (simp add: verdict_def)
  show ?thesis
  proof (cases "classifier w")
    case None
    then show ?thesis using assms(2) by (simp add: classifyWithAI_def withThreshold_def)
  next
    case (Some run)
    show ?thesis
    proof (cases "run (preprocessText text)")
      case None
      then show ?thesis using assms(2) Some by (simp add: classifyWithAI_def withThreshold_def Let_def)
    next
      case (Some out)
      have c: "classifier (withThreshold t w) = Some run" for t
        using \<open>classifier w = Some run\<close> by (simp add: withThreshold_def)
      have t: "settings_confidence (settings (withThreshold t w)) = t" for t
        by (simp add: withThreshold_def)
      show ?thesis
        using assms classifyWithAI_result [OF c Some, of t1] classifyWithAI_result [OF c Some, of t2]
        by (auto simp add: cfg t nl)
    qed
  qed
qed

theorem threshold_monotone_witness:
  "(0.9::real) \<le> 0.95
   \<and> map_option label (fst (classifyWithAI
        (withThreshold 0.9 (loadedWorker ''unitary/toxic-bert'' 0.5 (OutArray [rawItem ''toxic'' 0.82])))
        ''You are an idiot'')) = Some Normal
   \<and> map_option label (fst (classifyWithAI
        (withThreshold 0.95 (loadedWorker ''unitary/toxic-bert'' 0.5 (OutArray [rawItem ''toxic'' 0.82])))
        ''You are an idiot'')) = Some Normal"
proof -
  have h1: "(0.9::real) \<le> 0.95" by simp
  have h2: "map_option label (fst (classifyWithAI
        (withThreshold 0.9 (loadedWorker ''unitary/toxic-bert'' 0.5 (OutArray [rawItem ''toxic'' 0.82])))
        ''You are an idiot'')) = Some Normal"
    by (simp add: example_defs withThreshold_def)
  from threshold_monotone [OF h1 h2] h1 h2 show ?thesis by simp
qed


text \<open>Scores of at most 1 keep the running maximum at most 1.\<close>

lemma scan_bounded:
  "maxConfidence s \<le> 1 \<Longrightarrow> list_all (\<lambda>c. scoreOf c \<le> 1) cs \<Longrightarrow>
   maxConfidence (foldl (scanStep cfg) s cs) \<le> 1"
proof (induction cs arbitrary: s)
  case Nil
  then show ?case by simp
next
  case (Cons c cs)
  have "maxConfidence (scanStep cfg s c) \<le> 1"
    using Cons.prems by (simp add: scanStep_def Let_def)
  then show ?case using Cons by simp
qed

lemma scanResult_bounded: "unitScores out \<Longrightarrow> maxConfidence (scanResult cfg out) \<le> 1"
  by (cases out) (simp_all add: scanResult_def unitScores_def scan_bounded scanInit_def scanObject_def Let_def)

text \<open>A scan that ends normal ends with the maximum of the normal scores.\<close>

lemma scan_stays_normal:
  "\<not> isHateful (foldl (scanStep cfg) s cs) \<Longrightarrow> 0 \<le> maxConfidence s \<Longrightarrow>
   maxConfidence (foldl (scanStep cfg) s cs) = max (maxConfidence s) (spec_maxScore (mapsNormal cfg) cs)"
proof (induction cs arbitrary: s)
  case Nil
  then show ?case using spec_maxScore_nonneg [of "mapsNormal cfg" "[]"] by simp
next
  case (Cons c cs)
  let ?s' = "scanStep cfg s c"
  have nh': "\<not> isHateful ?s'"
  proof
    assume h: "isHateful ?s'"
    have "0 \<le> maxConfidence ?s'" using Cons.prems(2) by (auto simp: scanStep_cases)
    from scan_hateful_sticky [OF h this, of cfg cs] Cons.prems(1) show False by simp
  qed
  then have m: "maxConfidence ?s' = (if mapsNormal cfg c then max (maxConfidence s) (scoreOf c) else maxConfidence s)"
    by (auto simp: scanStep_cases split: if_splits)
  then have "0 \<le> maxConfidence ?s'" using Cons.prems(2) by auto
  from Cons.IH [OF _ this] Cons.prems(1)
  have "maxConfidence (foldl (scanStep cfg) ?s' cs) = max (maxConfidence ?s') (spec_maxScore (mapsNormal cfg) cs)"
    by simp
  then show ?case using m by (auto simp: max_def)
qed

lemma scanResult_observed: "maxConfidence (scanResult cfg out) = observedMaximum cfg out"
proof (cases out)
  case (OutArray cs)
  show ?thesis
  proof (cases "isHateful (foldl (scanStep cfg) scanInit cs)")
    case True
    then show ?thesis
      using scan_hateful_max [OF True] scan_hateful_iff [of cfg cs] OutArray
      by (simp add: scanResult_def observedMaximum_def)
  next
    case False
    have "maxConfidence (foldl (scanStep cfg) scanInit cs) = max 0 (spec_maxScore (mapsNormal cfg) cs)"
      using scan_stays_normal [OF False] by (simp add: scanInit_def)
    then show ?thesis
      using False scan_hateful_iff [of cfg cs] OutArray spec_maxScore_nonneg [of "mapsNormal cfg" cs]
      by (simp add: scanResult_def observedMaximum_def)
  qed
next
  case (OutObject c)
  then show ?thesis by (simp add: scanResult_def observedMaximum_def scanObject_def Let_def)
next
  case OutOther
  then show ?thesis by (simp add: scanResult_def observedMaximum_def scanInit_def)
qed

text \<open>
  Claim C10 (as amended). Every result of \<open>classifyWithAI\<close> with label normal has as its
  confidence the observed maximum score clamped up to 0.5, so at least 0.5, and at most 1
  when the scores of the model output are at most 1. Every result with label hateful has
  as its confidence the observed maximum score clamped down to 0.95, so at most 0.95.
\<close>

theorem classifyWithAI_confidence_clamped:
  assumes "classifier w = Some run"
    and "run (preprocessText text) = Some out"
    and "fst (classifyWithAI w text) = Some r"
  shows "(label r = Normal \<longrightarrow>
            confidence r = max 0.5 (observedMaximum (getCurrentModelConfig w) out)
            \<and> 0.5 \<le> confidence r
            \<and> (unitScores out \<longrightarrow> confidence r \<le> 1))
       \<and> (label r = Hateful \<longrightarrow>
            confidence r = min 0.95 (observedMaximum (getCurrentModelConfig w) out)
            \<and> confidence r \<le> 0.95)"
proof -
  let ?s = "scanResult (getCurrentModelConfig w) out"
  have r: "r = verdict (getCurrentModelConfig w) (settings_confidence (settings w)) (preprocessText text) ?s"
    using classifyWithAI_result [OF assms(1,2)] assms(3) by simp
  have o: "maxConfidence ?s = observedMaximum (getCurrentModelConfig w) out"
    by (rule scanResult_observed)
  have "unitScores out \<Longrightarrow> maxConfidence ?s \<le> 1"
    by (rule scanResult_bounded)
  then show ?thesis
    unfolding r verdict_def o [symmetric] by auto
qed

theorem classifyWithAI_confidence_clamped_witness:
  "classifier (loadedWorker ''cardiffnlp/twitter-roberta-base-hate'' 0.7 (OutArray [rawItem ''normal'' 0.3]))
      = Some (fixedModel (OutArray [rawItem ''normal'' 0.3]))
   \<and> fixedModel (OutArray [rawItem ''normal'' 0.3]) (preprocessText ''hello there'')
      = Some (OutArray [rawItem ''normal'' 0.3])
   \<and> unitScores (OutArray [rawItem ''normal'' 0.3])
   \<and> label (the (fst (classifyWithAI
        (loadedWorker ''cardiffnlp/twitter-roberta-base-hate'' 0.7 (OutArray [rawItem ''normal'' 0.3]))
        ''hello there''))) = Normal
   \<and> observedMaximum (getCurrentModelConfig
        (loadedWorker ''cardiffnlp/twitter-roberta-base-hate'' 0.7 (OutArray [rawItem ''normal'' 0.3])))
        (OutArray [rawItem ''normal'' 0.3]) = 0.3
   \<and> confidence (the (fst (classifyWithAI
        (loadedWorker ''cardiffnlp/twitter-roberta-base-hate'' 0.7 (OutArray [rawItem ''normal'' 0.3]))
        ''hello there''))) = 0.5
   \<and> classifier (loadedWorker ''cardiffnlp/twitter-roberta-base-hate'' 0.7 (OutArray [rawItem ''hate'' 0.98]))
      = Some (fixedModel (OutArray [rawItem ''hate'' 0.98]))
   \<and> label (the (fst (classifyWithAI
        (loadedWorker ''cardiffnlp/twitter-roberta-base-hate'' 0.7 (OutArray [rawItem ''hate'' 0.98]))
        ''hello there''))) = Hateful
   \<and> observedMaximum (getCurrentModelConfig
        (loadedWorker ''cardiffnlp/twitter-roberta-base-hate'' 0.7 (OutArray [rawItem ''hate'' 0.98])))
        (OutArray [rawItem ''hate'' 0.98]) = 0.98
   \<and> confidence (the (fst (classifyWithAI
        (loadedWorker ''cardiffnlp/twitter-roberta-base-hate'' 0.7 (OutArray [rawItem ''hate'' 0.98]))
        ''hello there''))) = 0.95"
proof -
  let ?n = "OutArray [rawItem ''normal'' 0.3]"
  let ?h = "OutArray [rawItem ''hate'' 0.98]"
  let ?wn = "loadedWorker ''cardiffnlp/twitter-roberta-base-hate'' 0.7 ?n"
  let ?wh = "loadedWorker ''cardiffnlp/twitter-roberta-base-hate'' 0.7 ?h"
  have n1: "classifier ?wn = Some (fixedModel ?n)"
    and h1: "classifier ?wh = Some (fixedModel ?h)"
    by (simp_all add: loadedWorker_def loadAIModel_finish_def)
  have n2: "fixedModel ?n (preprocessText ''hello there'') = Some ?n"
    and h2: "fixedModel ?h (preprocessText ''hello there'') = Some ?h"
    by (simp_all add: fixedModel_def)
  have n3: "fst (classifyWithAI ?wn ''hello there'') = Some (the (fst (classifyWithAI ?wn ''hello there'')))"
    using classifyWithAI_result [OF n1 n2] by simp
  have h3: "fst (classifyWithAI ?wh ''hello there'') = Some (the (fst (classifyWithAI ?wh ''hello there'')))"
    using classifyWithAI_result [OF h1 h2] by simp
  have nl: "label (the (fst (classifyWithAI ?wn ''hello there''))) = Normal"
    and hl: "label (the (fst (classifyWithAI ?wh ''hello there''))) = Hateful"
    by (simp_all add: example_defs)
  have nm: "maxConfidence (scanResult (getCurrentModelConfig ?wn) ?n) = 0.3"
    and hm: "maxConfidence (scanResult (getCurrentModelConfig ?wh) ?h) = 0.98"
    by (simp_all add: example_defs)
  have no: "observedMaximum (getCurrentModelConfig ?wn) ?n = 0.3"
    and ho: "observedMaximum (getCurrentModelConfig ?wh) ?h = 0.98"
    using nm hm by (simp_all only: scanResult_observed)
  have u: "unitScores ?n"
    by (simp add: unitScores_def rawItem_def scoreOf_def)
  have nc: "confidence (the (fst (classifyWithAI ?wn ''hello there''))) = 0.5"
    using classifyWithAI_confidence_clamped [OF n1 n2 n3] nl no by simp
  have hc: "confidence (the (fst (classifyWithAI ?wh ''hello there''))) = 0.95"
    using classifyWithAI_confidence_clamped [OF h1 h2 h3] hl ho by simp
  show ?thesis
    using n1 n2 u nl no nc h1 hl ho hc by blast
qed

text \<open>
  The claim as stated fails: the normal branch has no upper clamp, and an output
  \<open>[normal 1.5]\<close> gives a normal result with confidence 1.5.
\<close>

theorem C10_counterexample:
  "map_option label (fst (classifyWithAI
      (loadedWorker ''cardiffnlp/twitter-roberta-base-hate'' 0.7 (OutArray [rawItem ''normal'' 1.5]))
      ''hello there'')) = Some Normal
   \<and> map_option confidence (fst (classifyWithAI
      (loadedWorker ''cardiffnlp/twitter-roberta-base-hate'' 0.7 (OutArray [rawItem ''normal'' 1.5]))
      ''hello there'')) = Some 1.5
   \<and> \<not> (1.5 \<le> (1::real))"
  by (simp add: example_defs)

text \<open>A load that throws leaves the model not loaded.\<close>

lemma failed_load_not_loaded: "\<not> isModelLoaded (loadAIModel_finish None w)"
  by (simp add: loadAIModel_finish_def)

text \<open>
  Claim C2. While the model is not loaded (never loaded, loading, or failed to load),
  \<open>classifyText\<close> returns the default result for every text: label normal, confidence
  0.5, an explanation saying that the model is not available. It has no failing outcome
  and leaves the worker as it was.
\<close>

theorem classifyText_model_unavailable:
  assumes "\<not> isModelLoaded w"
  shows "classifyText w text = (defaultClassification, w)
       \<and> label (fst (classifyText w text)) = Normal
       \<and> confidence (fst (classifyText w text)) = 0.5
       \<and> str_includes (explanation (fst (classifyText w text))) ''model not available''"
  using assms by (simp add: classifyText_def defaultClassification_def)

theorem classifyText_model_unavailable_witness:
  "\<not> isModelLoaded (loadAIModel_finish None initialWorker)
   \<and> classifyText (loadAIModel_finish None initialWorker) ''hello world''
        = (defaultClassification, loadAIModel_finish None initialWorker)
   \<and> label (fst (classifyText (loadAIModel_finish None initialWorker) ''hello world'')) = Normal
   \<and> confidence (fst (classifyText (loadAIModel_finish None initialWorker) ''hello world'')) = 0.5
   \<and> str_includes (explanation (fst (classifyText (loadAIModel_finish None initialWorker)
         ''hello world''))) ''model not available''"
proof -
  have h: "\<not> isModelLoaded (loadAIModel_finish None initialWorker)"
    by (simp add: loadAIModel_finish_def)
  from classifyText_model_unavailable [OF h, of "''hello world''"] h show ?thesis
    by blast
qed

text \<open>
  Claim C9. A classification request whose text is missing, empty or not a string is
  answered with \<open>{success: false, error, elementId}\<close>; the worker is unchanged, so the
  classifier was not invoked (the inference trace is the same) and no detection was
  stored; the response carries no classification.
\<close>

theorem malformed_request_rejected:
  assumes "malformedText (req_text message)"
  shows "handleClassificationRequest now storageOk w message =
           (\<lparr> success = False, classification = None, elementId = req_elementId message,
              error = Some ''Invalid text provided'', originalText = None \<rparr>, w)"
  using assms
  by (cases "req_text message")
     (simp_all add: handleClassificationRequest_def malformedText_def falsy_def typeof_def
        invalidTextResponse_def)

theorem malformed_request_rejected_witness:
  "malformedText (req_text \<lparr> req_text = JSString [], req_elementId = ''hs-ext-1-1'' \<rparr>)
   \<and> handleClassificationRequest 1 True
        (loadedWorker ''unitary/toxic-bert'' 0.5 (OutArray [rawItem ''toxic'' 0.82]))
        \<lparr> req_text = JSString [], req_elementId = ''hs-ext-1-1'' \<rparr>
      = (\<lparr> success = False, classification = None, elementId = ''hs-ext-1-1'',
           error = Some ''Invalid text provided'', originalText = None \<rparr>,
         loadedWorker ''unitary/toxic-bert'' 0.5 (OutArray [rawItem ''toxic'' 0.82]))"
proof -
  have h: "malformedText (req_text \<lparr> req_text = JSString [], req_elementId = ''hs-ext-1-1'' \<rparr>)"
    by (simp add: malformedText_def)
  from malformed_request_rejected [OF h, of 1 True
      "loadedWorker ''unitary/toxic-bert'' 0.5 (OutArray [rawItem ''toxic'' 0.82])"] h
  show ?thesis by simp
qed


section \<open>Properties of text preprocessing\<close>

lemma scheme_nonSpace:
  "\<forall>c \<in> set ''https://''. \<not> isSpace c" "\<forall>c \<in> set ''http://''. \<not> isSpace c"
  by (simp_all add: isSpace_def)

lemma matchAfter_iff: "matchAfter u t \<noteq> None \<longleftrightarrow> (\<exists>c r. t = u @ c # r \<and> \<not> isSpace c)"
proof
  assume "matchAfter u t \<noteq> None"
  then obtain c r where p: "prefix u t" and d: "drop (length u) t = c # r" and c: "\<not> isSpace c"
    by (auto simp: matchAfter_def split: if_splits list.splits)
  from p obtain z where "t = u @ z" by (auto simp: prefix_def)
  with d have "t = u @ c # r" by simp
  with c show "\<exists>c r. t = u @ c # r \<and> \<not> isSpace c" by blast
next
  assume "\<exists>c r. t = u @ c # r \<and> \<not> isSpace c"
  then show "matchAfter u t \<noteq> None" by (auto simp: matchAfter_def)
qed

lemma urlAt_iff:
  "urlAt t \<longleftrightarrow> (\<exists>u c r. (u = ''https://'' \<or> u = ''http://'') \<and> t = u @ c # r \<and> \<not> isSpace c)"
proof -
  have "urlAt t \<longleftrightarrow> matchAfter ''https://'' t \<noteq> None \<or> matchAfter ''http://'' t \<noteq> None"
    by (auto simp: urlAt_def urlMatch_def split: option.splits)
  then show ?thesis unfolding matchAfter_iff by blast
qed

lemma urlAt_append: "urlAt t \<Longrightarrow> urlAt (t @ z)"
  unfolding urlAt_iff by (metis append_Cons append_assoc)

lemma urlAt_takeWhile: "urlAt t \<Longrightarrow> urlAt (takeWhile nonSpace t)"
proof -
  assume "urlAt t"
  then obtain u c r where u: "u = ''https://'' \<or> u = ''http://''" and t: "t = u @ c # r"
    and c: "\<not> isSpace c"
    unfolding urlAt_iff by blast
  have "\<forall>x \<in> set u. \<not> isSpace x" using u scheme_nonSpace by blast
  then have "takeWhile nonSpace t = u @ c # takeWhile nonSpace r"
    using t c by simp
  then show ?thesis unfolding urlAt_iff using u c by blast
qed

lemma urlAt_prefix_mono:
  assumes "urlAt a" and "prefix (takeWhile nonSpace a) (takeWhile nonSpace b)"
  shows "urlAt b"
proof -
  from assms(2) obtain z where "takeWhile nonSpace b = takeWhile nonSpace a @ z"
    by (auto simp: prefix_def)
  then have "urlAt (takeWhile nonSpace b)"
    using urlAt_append [OF urlAt_takeWhile [OF assms(1)]] by simp
  then have "urlAt (takeWhile nonSpace b @ dropWhile nonSpace b)"
    by (rule urlAt_append)
  then show ?thesis by simp
qed

lemma urlMatch_space: "isSpace w \<Longrightarrow> urlMatch (w # r) = None"
proof (rule ccontr)
  assume w: "isSpace w" and "urlMatch (w # r) \<noteq> None"
  then have "urlAt (w # r)" by (simp add: urlAt_def)
  then obtain u c r' where "u = ''https://'' \<or> u = ''http://''" "w # r = u @ c # r'"
    unfolding urlAt_iff by blast
  then have "w = CHR ''h''" by auto
  with w show False by (simp add: isSpace_def)
qed

lemma urlMatch_rest: "urlMatch t = Some r \<Longrightarrow> r = [] \<or> isSpace (hd r)"
proof -
  assume "urlMatch t = Some r"
  then obtain u where "matchAfter u t = Some r"
    by (auto simp: urlMatch_def split: option.splits)
  then obtain r' where "r = dropWhile nonSpace r'"
    by (auto simp: matchAfter_def split: if_splits list.splits)
  then show ?thesis using hd_dropWhile [of nonSpace r'] by auto
qed

lemma removeUrlsRe_space: "isSpace w \<Longrightarrow> removeUrlsRe (w # r) = w # removeUrlsRe r"
  by (simp add: urlMatch_space)

lemma removeUrlsRe_prefix:
  "prefix (takeWhile nonSpace (removeUrlsRe s)) (takeWhile nonSpace s)"
proof (induction s rule: removeUrlsRe.induct)
  case 1
  then show ?case by simp
next
  case (2 c cs)
  show ?case
  proof (cases "urlMatch (c # cs)")
    case None
    then show ?thesis using 2 by simp
  next
    case (Some r)
    have "takeWhile nonSpace (removeUrlsRe r) = []"
    proof (cases r)
      case Nil
      then show ?thesis by simp
    next
      case (Cons w r')
      then have "isSpace w" using urlMatch_rest [OF Some] by simp
      then show ?thesis using Cons removeUrlsRe_space [of w r'] by (simp del: removeUrlsRe.simps)
    qed
    then show ?thesis using Some by simp
  qed
qed

lemma removeUrlsRe_no_url: "\<not> containsUrl (removeUrlsRe s)"
proof (induction s rule: removeUrlsRe.induct)
  case 1
  then show ?case by simp
next
  case (2 c cs)
  show ?case
  proof (cases "urlMatch (c # cs)")
    case None
    have "\<not> urlAt (c # removeUrlsRe cs)"
    proof
      assume a: "urlAt (c # removeUrlsRe cs)"
      have "prefix (takeWhile nonSpace (c # removeUrlsRe cs)) (takeWhile nonSpace (c # cs))"
        using removeUrlsRe_prefix [of cs] by simp
      from urlAt_prefix_mono [OF a this] None show False by (simp add: urlAt_def)
    qed
    then show ?thesis using None 2 by simp
  next
    case (Some r)
    then show ?thesis using 2 by simp
  qed
qed


lemma containsUrl_iff: "containsUrl s \<longleftrightarrow> (\<exists>pre t. s = pre @ t \<and> urlAt t)"
proof (induction s)
  case Nil
  then show ?case by (simp add: urlAt_iff)
next
  case (Cons c cs)
  show ?case
  proof
    assume "containsUrl (c # cs)"
    then consider "urlAt (c # cs)" | "containsUrl cs" by auto
    then show "\<exists>pre t. c # cs = pre @ t \<and> urlAt t"
    proof cases
      case 1
      then have "c # cs = [] @ (c # cs) \<and> urlAt (c # cs)" by simp
      then show ?thesis by blast
    next
      case 2
      then obtain pre t where "cs = pre @ t" "urlAt t" using Cons.IH by blast
      then have "c # cs = (c # pre) @ t \<and> urlAt t" by simp
      then show ?thesis by blast
    qed
  next
    assume "\<exists>pre t. c # cs = pre @ t \<and> urlAt t"
    then obtain pre t where e: "c # cs = pre @ t" and u: "urlAt t" by blast
    show "containsUrl (c # cs)"
    proof (cases pre)
      case Nil
      then have "t = c # cs" using e by simp
      then show ?thesis using u by simp
    next
      case (Cons p pre')
      then have "cs = pre' @ t" using e by simp
      then have "containsUrl cs" using Cons.IH u by blast
      then show ?thesis by simp
    qed
  qed
qed

lemma containsUrl_sublist: "sublist xs ys \<Longrightarrow> containsUrl xs \<Longrightarrow> containsUrl ys"
proof -
  assume "sublist xs ys" and "containsUrl xs"
  then obtain ps ss pre t where "ys = ps @ xs @ ss" "xs = pre @ t" "urlAt t"
    unfolding containsUrl_iff sublist_def by blast
  then have "ys = (ps @ pre) @ (t @ ss) \<and> urlAt (t @ ss)"
    by (simp add: urlAt_append)
  then show "containsUrl ys" unfolding containsUrl_iff by blast
qed

lemma collapseWhitespace_prefix:
  "takeWhile nonSpace (collapseWhitespace s) = takeWhile nonSpace s"
  by (induction s rule: collapseWhitespace.induct) (simp_all add: isSpace_def)

lemma collapseWhitespace_no_new_url: "containsUrl (collapseWhitespace s) \<Longrightarrow> containsUrl s"
proof (induction s rule: collapseWhitespace.induct)
  case 1
  then show ?case by simp
next
  case (2 c cs)
  show ?case
  proof (cases "isSpace c")
    case True
    have "\<not> urlAt (CHR '' '' # collapseWhitespace (dropWhile isSpace cs))"
      using urlMatch_space [of "CHR '' ''"] by (simp add: urlAt_def isSpace_def)
    then have "containsUrl (collapseWhitespace (dropWhile isSpace cs))"
      using 2(3) True by simp
    then have "containsUrl (dropWhile isSpace cs)"
      using 2(1) True by simp
    then have "containsUrl cs"
      using containsUrl_sublist [OF sublist_dropWhile] by blast
    then show ?thesis by simp
  next
    case False
    from 2(3) False consider "urlAt (c # collapseWhitespace cs)" | "containsUrl (collapseWhitespace cs)"
      by auto
    then show ?thesis
    proof cases
      case 1
      have "prefix (takeWhile nonSpace (c # collapseWhitespace cs)) (takeWhile nonSpace (c # cs))"
        by (simp add: collapseWhitespace_prefix)
      from urlAt_prefix_mono [OF 1 this] show ?thesis by simp
    next
      case 2
      then show ?thesis using "2.IH"(2) False by simp
    qed
  qed
qed

lemma hasSpaceRun_Cons: "hasSpaceRun (a # t) \<longleftrightarrow> (isSpace a \<and> leadingSpace t) \<or> hasSpaceRun t"
  by (cases t) (simp_all add: leadingSpace_def)

lemma hasSpaceRun_iff:
  "hasSpaceRun s \<longleftrightarrow> (\<exists>pre a b post. s = pre @ a # b # post \<and> isSpace a \<and> isSpace b)"
proof (induction s)
  case Nil
  then show ?case by simp
next
  case (Cons c cs)
  show ?case
  proof
    assume "hasSpaceRun (c # cs)"
    then consider "isSpace c \<and> leadingSpace cs" | "hasSpaceRun cs"
      by (auto simp: hasSpaceRun_Cons)
    then show "\<exists>pre x y post. c # cs = pre @ x # y # post \<and> isSpace x \<and> isSpace y"
    proof cases
      case 1
      then obtain b post where "cs = b # post" "isSpace b"
        by (cases cs) (simp_all add: leadingSpace_def)
      then have "c # cs = [] @ c # b # post \<and> isSpace c \<and> isSpace b" using 1 by simp
      then show ?thesis by blast
    next
      case 2
      then obtain pre x y post where "cs = pre @ x # y # post" "isSpace x" "isSpace y"
        using Cons.IH by blast
      then have "c # cs = (c # pre) @ x # y # post \<and> isSpace x \<and> isSpace y" by simp
      then show ?thesis by blast
    qed
  next
    assume "\<exists>pre x y post. c # cs = pre @ x # y # post \<and> isSpace x \<and> isSpace y"
    then obtain pre x y post where e: "c # cs = pre @ x # y # post" and s: "isSpace x" "isSpace y"
      by blast
    show "hasSpaceRun (c # cs)"
    proof (cases pre)
      case Nil
      then have "c = x" "cs = y # post" using e by simp_all
      then show ?thesis using s by (simp add: hasSpaceRun_Cons leadingSpace_def)
    next
      case (Cons p pre')
      then have "cs = pre' @ x # y # post" using e by simp
      then have "hasSpaceRun cs" using Cons.IH s by blast
      then show ?thesis by (simp add: hasSpaceRun_Cons)
    qed
  qed
qed

lemma hasSpaceRun_sublist: "sublist xs ys \<Longrightarrow> hasSpaceRun xs \<Longrightarrow> hasSpaceRun ys"
proof -
  assume "sublist xs ys" and "hasSpaceRun xs"
  then obtain ps ss pre a b post where "ys = ps @ xs @ ss" "xs = pre @ a # b # post"
    "isSpace a" "isSpace b"
    unfolding hasSpaceRun_iff sublist_def by blast
  then have "ys = (ps @ pre) @ a # b # (post @ ss) \<and> isSpace a \<and> isSpace b"
    by simp
  then show "hasSpaceRun ys" unfolding hasSpaceRun_iff by blast
qed

lemma leadingSpace_dropWhile: "\<not> leadingSpace (dropWhile isSpace s)"
proof (cases "dropWhile isSpace s")
  case Nil
  show ?thesis unfolding Nil by (simp add: leadingSpace_def)
next
  case (Cons y ys)
  then have "\<not> isSpace y" using hd_dropWhile [of isSpace s] by simp
  then show ?thesis unfolding Cons by (simp add: leadingSpace_def)
qed

lemma leadingSpace_collapse: "leadingSpace (collapseWhitespace s) = leadingSpace s"
  by (cases s) (simp_all add: leadingSpace_def isSpace_def)

lemma collapseWhitespace_no_run: "\<not> hasSpaceRun (collapseWhitespace s)"
proof (induction s rule: collapseWhitespace.induct)
  case 1
  then show ?case by simp
next
  case (2 c cs)
  show ?case
  proof (cases "isSpace c")
    case True
    then show ?thesis
      using "2.IH"(1) by (simp add: hasSpaceRun_Cons leadingSpace_collapse leadingSpace_dropWhile)
  next
    case False
    then show ?thesis
      using "2.IH"(2) by (simp add: hasSpaceRun_Cons)
  qed
qed

lemma sublist_trim: "sublist (trim s) s"
proof -
  have "sublist (rev (dropWhile isSpace (rev (dropWhile isSpace s)))) (dropWhile isSpace s)"
    by (simp add: sublist_rev_left)
  then show ?thesis
    unfolding trim_def using sublist_dropWhile [of isSpace s] sublist_order.order_trans by blast
qed

lemma trim_no_leading: "\<not> leadingSpace (trim s)"
proof (cases "dropWhile isSpace s")
  case Nil
  show ?thesis unfolding trim_def Nil by (simp add: leadingSpace_def)
next
  case (Cons y ys)
  then have y: "\<not> isSpace y" using hd_dropWhile [of isSpace s] by simp
  have "dropWhile isSpace (rev ys @ [y]) = dropWhile isSpace (rev ys) @ [y]"
    using y by (simp add: dropWhile_append)
  then show ?thesis unfolding trim_def Cons using y by (simp add: leadingSpace_def)
qed

lemma trim_no_trailing: "\<not> trailingSpace (trim s)"
  by (simp add: trailingSpace_def trim_def leadingSpace_dropWhile)

lemma leadingSpace_take: "leadingSpace (take n s) \<Longrightarrow> leadingSpace s"
  by (cases s; cases n) (simp_all add: leadingSpace_def)

lemma preprocessText_eq:
  "preprocessText text =
     (if length (normalizedText text) > 512 then take 512 (normalizedText text)
      else normalizedText text)"
  by (simp add: preprocessText_def TEXT_PREPROCESSING_def normalizedText_def Let_def)

lemma normalizedText_props:
  "\<not> containsUrl (normalizedText text)" "\<not> hasSpaceRun (normalizedText text)"
  "\<not> leadingSpace (normalizedText text)" "\<not> trailingSpace (normalizedText text)"
proof -
  show "\<not> containsUrl (normalizedText text)"
    unfolding normalizedText_def
    using containsUrl_sublist [OF sublist_trim] collapseWhitespace_no_new_url removeUrlsRe_no_url
    by blast
  show "\<not> hasSpaceRun (normalizedText text)"
    unfolding normalizedText_def
    using hasSpaceRun_sublist [OF sublist_trim] collapseWhitespace_no_run by blast
  show "\<not> leadingSpace (normalizedText text)"
    unfolding normalizedText_def by (rule trim_no_leading)
  show "\<not> trailingSpace (normalizedText text)"
    unfolding normalizedText_def by (rule trim_no_trailing)
qed

text \<open>
  Claim C8 (as amended). For every input string the preprocessed text contains no URL,
  no run of two or more consecutive whitespace characters and no leading whitespace, and
  has length at most 512. It is the first 512 characters of the normalised text, which
  has no trailing whitespace; so the preprocessed text has no trailing whitespace
  whenever the normalised text is at most 512 characters long.
\<close>

theorem preprocessText_clean:
  "\<not> containsUrl (preprocessText text)
   \<and> \<not> hasSpaceRun (preprocessText text)
   \<and> \<not> leadingSpace (preprocessText text)
   \<and> length (preprocessText text) \<le> 512
   \<and> preprocessText text = take 512 (normalizedText text)
   \<and> \<not> trailingSpace (normalizedText text)
   \<and> (length (normalizedText text) \<le> 512 \<longrightarrow> \<not> trailingSpace (preprocessText text))"
proof -
  have t: "preprocessText text = take 512 (normalizedText text)"
    by (simp add: preprocessText_eq)
  have s: "sublist (preprocessText text) (normalizedText text)"
    unfolding t by (rule sublist_take)
  show ?thesis
    using normalizedText_props [of "text"] containsUrl_sublist [OF s] hasSpaceRun_sublist [OF s]
      leadingSpace_take [of 512 "normalizedText text"] t
    by auto
qed


theorem preprocessText_clean_witness:
  "length (normalizedText ''  see http://x.y/z  and   https://q now '') \<le> 512
   \<and> preprocessText ''  see http://x.y/z  and   https://q now '' = ''see and now''
   \<and> \<not> trailingSpace (preprocessText ''  see http://x.y/z  and   https://q now '')
   \<and> \<not> containsUrl (preprocessText ''  see http://x.y/z  and   https://q now '')"
proof -
  have n: "normalizedText ''  see http://x.y/z  and   https://q now '' = ''see and now''"
    by (simp add: normalizedText_def trim_def urlMatch_def matchAfter_def isSpace_def)
  then have h: "length (normalizedText ''  see http://x.y/z  and   https://q now '') \<le> 512"
    by simp
  have p: "preprocessText ''  see http://x.y/z  and   https://q now '' = ''see and now''"
    by (simp add: preprocessText_eq n)
  from preprocessText_clean [of "''  see http://x.y/z  and   https://q now ''"] h p
  show ?thesis by blast
qed

text \<open>
  The claim as stated fails when truncation cuts just after a blank: 511 letters, a blank
  and one more letter give a result of 512 characters that ends in the blank.
\<close>

lemma removeUrlsRe_letters:
  "removeUrlsRe (replicate n (CHR ''a'') @ s) = replicate n (CHR ''a'') @ removeUrlsRe s"
  by (induction n) (simp_all add: urlMatch_def matchAfter_def)

lemma collapseWhitespace_letters:
  "collapseWhitespace (replicate n (CHR ''a'') @ s) = replicate n (CHR ''a'') @ collapseWhitespace s"
  by (induction n) (simp_all add: isSpace_def)

lemma normalizedText_letters:
  "normalizedText (replicate (Suc n) (CHR ''a'') @ '' b'') = replicate (Suc n) (CHR ''a'') @ '' b''"
proof -
  have "removeUrlsRe '' b'' = '' b''" "collapseWhitespace '' b'' = '' b''"
    by (simp_all add: urlMatch_def matchAfter_def isSpace_def)
  then have "normalizedText (replicate (Suc n) (CHR ''a'') @ '' b'')
               = trim (replicate (Suc n) (CHR ''a'') @ '' b'')"
    by (simp only: normalizedText_def removeUrlsRe_letters collapseWhitespace_letters)
  also have "\<dots> = replicate (Suc n) (CHR ''a'') @ '' b''"
    by (simp add: trim_def isSpace_def)
  finally show ?thesis .
qed

theorem C8_counterexample:
  "trailingSpace (preprocessText (replicate 511 (CHR ''a'') @ '' b''))
   \<and> preprocessText (replicate 511 (CHR ''a'') @ '' b'') = replicate 511 (CHR ''a'') @ '' ''"
proof -
  have "(511::nat) = Suc 510" by simp
  then have "normalizedText (replicate 511 (CHR ''a'') @ '' b'') = replicate 511 (CHR ''a'') @ '' b''"
    using normalizedText_letters [of 510] by simp
  then have "preprocessText (replicate 511 (CHR ''a'') @ '' b'') = replicate 511 (CHR ''a'') @ '' ''"
    by (simp add: preprocessText_eq)
  then show ?thesis
    by (simp add: trailingSpace_def leadingSpace_def isSpace_def)
qed

text \<open>The text that \<open>classifyWithAI\<close> hands to the model is the preprocessed one.\<close>

lemma classifyWithAI_hands_preprocessed:
  "classifier w = Some run \<Longrightarrow>
   inferenceLog (snd (classifyWithAI w txt)) = preprocessText txt # inferenceLog w"
  by (simp add: classifyWithAI_def Let_def split: option.splits)


section \<open>Properties of JSON text\<close>
























section \<open>Properties of the feedback store\<close>

lemma userFeedback_make [simp]: "userFeedback (makeFeedbackData call feedback) = userFeedback feedback"
  by (simp add: makeFeedbackData_def FeedbackInput.defs FeedbackData.defs)

lemma getFeedbackStats_counters:
  "totalFeedback (getFeedbackStats False store) = totalFeedback (statsOf store)"
  "falsePositives (getFeedbackStats False store) = falsePositives (statsOf store)"
  "falseNegatives (getFeedbackStats False store) = falseNegatives (statsOf store)"
  "correctClassifications (getFeedbackStats False store) = correctClassifications (statsOf store)"
  "accuracy (getFeedbackStats False store) = accuracy (statsOf store)"
  by (simp_all add: getFeedbackStats_def statsOf_def Let_def)


lemma statsOf_empty:
  "statsOf emptyStore = getDefaultStats" "logOf emptyStore = []"
  by (simp_all add: statsOf_def logOf_def emptyStore_def)

text \<open>The steps of a task compute what \<open>updateStats\<close> and \<open>submitFeedback\<close> do.\<close>

lemma updateStats_nextStats:
  "updateStats faults newFeedback store =
     (if set_stats_fails faults then store
      else store \<lparr> stored_stats :=
             Some (nextStats (getFeedbackStats (get_stats_fails faults) store) newFeedback) \<rparr>)"
  by (simp add: updateStats_def nextStats_def Let_def)

lemma submit_rejected:
  "\<not> resolves call \<Longrightarrow>
     fst (submitFeedback call feedback store) \<noteq> None \<and> snd (submitFeedback call feedback store) = store"
  by (auto simp: resolves_def submitFeedback_def Let_def)

lemma submit_resolved:
  assumes "resolves call"
  shows "fst (submitFeedback call feedback store) = None"
    and "logOf (snd (submitFeedback call feedback store))
           = take 1000 (makeFeedbackData call feedback # logOf store)"
  using assms
  by (simp_all add: resolves_def submitFeedback_def Let_def logOf_def updateStats_nextStats)

lemma nextStats_counters:
  "totalFeedback (nextStats st d) = totalFeedback st + 1"
  "falsePositives (nextStats st d)
     = falsePositives st + (if fb_type (userFeedback d) = false_positive then 1 else 0)"
  "falseNegatives (nextStats st d)
     = falseNegatives st + (if fb_type (userFeedback d) = false_negative then 1 else 0)"
  "correctClassifications (nextStats st d)
     = correctClassifications st + (if fb_type (userFeedback d) = correct then 1 else 0)"
  "accuracy (nextStats st d) = spec_accuracy (nextStats st d)"
  by (cases "fb_type (userFeedback d)"; simp add: nextStats_def Let_def spec_accuracy_def add_ac)+

lemma submit_counted:
  assumes "resolves call"
    and "\<not> get_stats_fails (call_faults call)" and "\<not> set_stats_fails (call_faults call)"
  shows "statsOf (snd (submitFeedback call feedback store))
           = nextStats (getFeedbackStats False
                (store \<lparr> stored_feedback := Some (take 1000 (makeFeedbackData call feedback # logOf store)) \<rparr>))
               (makeFeedbackData call feedback)"
  using assms
  by (simp add: resolves_def submitFeedback_def Let_def logOf_def updateStats_nextStats statsOf_def)


lemma submitAll_stats_resolved:
  "statsCallsSucceed calls \<Longrightarrow>
   totalFeedback (statsOf (submitAll calls store))
     = totalFeedback (statsOf store) + length (resolved calls)
   \<and> falsePositives (statsOf (submitAll calls store))
       = falsePositives (statsOf store) + countType false_positive (resolved calls)
   \<and> falseNegatives (statsOf (submitAll calls store))
       = falseNegatives (statsOf store) + countType false_negative (resolved calls)
   \<and> correctClassifications (statsOf (submitAll calls store))
       = correctClassifications (statsOf store) + countType correct (resolved calls)
   \<and> (accuracy (statsOf store) = spec_accuracy (statsOf store) \<longrightarrow>
        accuracy (statsOf (submitAll calls store)) = spec_accuracy (statsOf (submitAll calls store)))"
proof (induction calls arbitrary: store)
  case Nil
  then show ?case by (simp add: countType_def resolved_def)
next
  case (Cons a calls)
  obtain call feedback where a: "a = (call, feedback)" by (cases a)
  let ?store' = "snd (submitFeedback call feedback store)"
  have rest: "statsCallsSucceed calls"
    using Cons.prems by (simp add: statsCallsSucceed_def)
  note IH = Cons.IH [OF rest, of ?store']
  show ?case
  proof (cases "resolves call")
    case False
    then have "?store' = store" using submit_rejected by blast
    then show ?thesis using IH a False by (simp add: resolved_def countType_def)
  next
    case True
    then have ok: "\<not> get_stats_fails (call_faults call)" "\<not> set_stats_fails (call_faults call)"
      using Cons.prems a by (simp_all add: statsCallsSucceed_def)
    have s: "statsOf ?store'
           = nextStats (getFeedbackStats False
                (store \<lparr> stored_feedback := Some (take 1000 (makeFeedbackData call feedback # logOf store)) \<rparr>))
               (makeFeedbackData call feedback)"
      by (rule submit_counted [OF True ok])
    have g: "statsOf (store \<lparr> stored_feedback := x \<rparr>) = statsOf store" for x
      by (simp add: statsOf_def)
    have c: "totalFeedback (statsOf ?store') = totalFeedback (statsOf store) + 1"
      "falsePositives (statsOf ?store')
         = falsePositives (statsOf store) + (if fb_type (userFeedback feedback) = false_positive then 1 else 0)"
      "falseNegatives (statsOf ?store')
         = falseNegatives (statsOf store) + (if fb_type (userFeedback feedback) = false_negative then 1 else 0)"
      "correctClassifications (statsOf ?store')
         = correctClassifications (statsOf store) + (if fb_type (userFeedback feedback) = correct then 1 else 0)"
      "accuracy (statsOf ?store') = spec_accuracy (statsOf ?store')"
      unfolding s by (simp_all add: nextStats_counters getFeedbackStats_counters g)
    show ?thesis using IH c a True by (simp add: resolved_def countType_def)
  qed
qed

lemma submitOutcomes_resolved:
  "map (\<lambda>outcome. outcome = None) (submitOutcomes calls store)
     = map (\<lambda>(call, feedback). resolves call) calls"
proof (induction calls arbitrary: store)
  case Nil
  then show ?case by simp
next
  case (Cons a calls)
  obtain call feedback where a: "a = (call, feedback)" by (cases a)
  show ?case
    using Cons.IH a submit_rejected [of call feedback store] submit_resolved(1) [of call feedback store]
    by (cases "resolves call") simp_all
qed

lemma countType_split:
  "length calls = countType false_positive calls + countType false_negative calls
                    + countType correct calls"
proof (induction calls)
  case Nil
  then show ?case by (simp add: countType_def)
next
  case (Cons a calls)
  obtain call feedback where a: "a = (call, feedback)" by (cases a)
  show ?case using Cons a
    by (cases "fb_type (userFeedback feedback)") (simp_all add: countType_def)
qed

lemma overlapped_sequential:
  assumes "call_faults c1 = noFaults" and "call_faults c2 = noFaults"
  shows "snd (snd (runOverlapped oneAfterTheOther (startTask c1 f1, startTask c2 f2, store)))
           = submitAll [(c1, f1), (c2, f2)] store"
  using assms
  by (simp add: oneAfterTheOther_def stepTask_def startTask_def submitFeedback_def
        updateStats_nextStats noFaults_def Let_def)

text \<open>
  Claim C3 (as amended). After any sequence of \<open>submitFeedback\<close> calls in which each call
  has settled before the next starts and no read or write of the statistics is rejected,
  starting from the empty store, the successful calls are those whose log read and write
  succeed, and with N the number of successful calls the statistics have total = N =
  falsePositives + falseNegatives + correct, each counter is the number of successful
  calls of its type, and accuracy is correct / (correct + falsePositives + falseNegatives)
  when that sum is positive, else 0.
\<close>

theorem stats_consistent_awaited:
  assumes "statsCallsSucceed calls"
  shows "map (\<lambda>outcome. outcome = None) (submitOutcomes calls emptyStore)
           = map (\<lambda>(call, feedback). resolves call) calls
       \<and> totalFeedback (getFeedbackStats False (submitAll calls emptyStore)) = length (resolved calls)
       \<and> totalFeedback (getFeedbackStats False (submitAll calls emptyStore))
           = falsePositives (getFeedbackStats False (submitAll calls emptyStore))
             + falseNegatives (getFeedbackStats False (submitAll calls emptyStore))
             + correctClassifications (getFeedbackStats False (submitAll calls emptyStore))
       \<and> falsePositives (getFeedbackStats False (submitAll calls emptyStore))
           = countType false_positive (resolved calls)
       \<and> falseNegatives (getFeedbackStats False (submitAll calls emptyStore))
           = countType false_negative (resolved calls)
       \<and> correctClassifications (getFeedbackStats False (submitAll calls emptyStore))
           = countType correct (resolved calls)
       \<and> accuracy (getFeedbackStats False (submitAll calls emptyStore))
           = spec_accuracy (getFeedbackStats False (submitAll calls emptyStore))"
proof -
  have acc0: "accuracy (statsOf emptyStore) = spec_accuracy (statsOf emptyStore)"
    by (simp add: statsOf_empty getDefaultStats_def spec_accuracy_def)
  have c: "totalFeedback (statsOf (submitAll calls emptyStore)) = length (resolved calls)"
    "falsePositives (statsOf (submitAll calls emptyStore)) = countType false_positive (resolved calls)"
    "falseNegatives (statsOf (submitAll calls emptyStore)) = countType false_negative (resolved calls)"
    "correctClassifications (statsOf (submitAll calls emptyStore)) = countType correct (resolved calls)"
    "accuracy (statsOf (submitAll calls emptyStore)) = spec_accuracy (statsOf (submitAll calls emptyStore))"
    using submitAll_stats_resolved [OF assms, of emptyStore] acc0
    by (simp_all add: statsOf_empty getDefaultStats_def)
  have sa: "spec_accuracy (getFeedbackStats False (submitAll calls emptyStore))
              = spec_accuracy (statsOf (submitAll calls emptyStore))"
    by (simp add: spec_accuracy_def getFeedbackStats_counters)
  show ?thesis
    using c countType_split [of "resolved calls"] submitOutcomes_resolved [of calls emptyStore]
    by (simp add: getFeedbackStats_counters sa)
qed


theorem stats_consistent_awaited_witness:
  "statsCallsSucceed [(exampleCall 1 noFaults, exampleFeedback false_positive),
                      (exampleCall 2 logReadFails, exampleFeedback false_negative),
                      (exampleCall 3 noFaults, exampleFeedback correct)]
   \<and> map (\<lambda>outcome. outcome = None)
         (submitOutcomes [(exampleCall 1 noFaults, exampleFeedback false_positive),
                          (exampleCall 2 logReadFails, exampleFeedback false_negative),
                          (exampleCall 3 noFaults, exampleFeedback correct)] emptyStore)
       = [True, False, True]
   \<and> totalFeedback (getFeedbackStats False (submitAll
         [(exampleCall 1 noFaults, exampleFeedback false_positive),
          (exampleCall 2 logReadFails, exampleFeedback false_negative),
          (exampleCall 3 noFaults, exampleFeedback correct)] emptyStore)) = 2
   \<and> falsePositives (getFeedbackStats False (submitAll
         [(exampleCall 1 noFaults, exampleFeedback false_positive),
          (exampleCall 2 logReadFails, exampleFeedback false_negative),
          (exampleCall 3 noFaults, exampleFeedback correct)] emptyStore)) = 1
   \<and> falseNegatives (getFeedbackStats False (submitAll
         [(exampleCall 1 noFaults, exampleFeedback false_positive),
          (exampleCall 2 logReadFails, exampleFeedback false_negative),
          (exampleCall 3 noFaults, exampleFeedback correct)] emptyStore)) = 0
   \<and> correctClassifications (getFeedbackStats False (submitAll
         [(exampleCall 1 noFaults, exampleFeedback false_positive),
          (exampleCall 2 logReadFails, exampleFeedback false_negative),
          (exampleCall 3 noFaults, exampleFeedback correct)] emptyStore)) = 1
   \<and> accuracy (getFeedbackStats False (submitAll
         [(exampleCall 1 noFaults, exampleFeedback false_positive),
          (exampleCall 2 logReadFails, exampleFeedback false_negative),
          (exampleCall 3 noFaults, exampleFeedback correct)] emptyStore)) = 0.5"
proof -
  let ?calls = "[(exampleCall 1 noFaults, exampleFeedback false_positive),
                 (exampleCall 2 logReadFails, exampleFeedback false_negative),
                 (exampleCall 3 noFaults, exampleFeedback correct)]"
  have h: "statsCallsSucceed ?calls"
    by (simp add: statsCallsSucceed_def resolves_def exampleCall_def noFaults_def logReadFails_def)
  have r: "resolved ?calls = [(exampleCall 1 noFaults, exampleFeedback false_positive),
                              (exampleCall 3 noFaults, exampleFeedback correct)]"
    "map (\<lambda>(call, feedback). resolves call) ?calls = [True, False, True]"
    by (simp_all add: resolved_def resolves_def exampleCall_def noFaults_def logReadFails_def)
  have n: "countType false_positive (resolved ?calls) = 1"
    "countType false_negative (resolved ?calls) = 0"
    "countType correct (resolved ?calls) = 1"
    unfolding r by (simp_all add: countType_def exampleFeedback_def)
  from stats_consistent_awaited [OF h] h n r show ?thesis
    by (simp add: spec_accuracy_def)
qed

text \<open>
  The claim as stated fails. A call whose statistics write is rejected still resolves: of
  two such successful calls the total counts one. And two successful calls that overlap,
  taking turns at their storage calls, both complete and leave a total of one.
\<close>

theorem C3_counterexample:
  "submitOutcomes [(exampleCall 1 noFaults, exampleFeedback false_positive),
                   (exampleCall 2 statsWriteFails, exampleFeedback correct)] emptyStore
     = [None, None]
   \<and> totalFeedback (getFeedbackStats False (submitAll
         [(exampleCall 1 noFaults, exampleFeedback false_positive),
          (exampleCall 2 statsWriteFails, exampleFeedback correct)] emptyStore)) = 1
   \<and> task_pc (fst (runOverlapped alternating
         (startTask (exampleCall 1 noFaults) (exampleFeedback false_positive),
          startTask (exampleCall 2 noFaults) (exampleFeedback correct), emptyStore))) = 4
   \<and> task_pc (fst (snd (runOverlapped alternating
         (startTask (exampleCall 1 noFaults) (exampleFeedback false_positive),
          startTask (exampleCall 2 noFaults) (exampleFeedback correct), emptyStore)))) = 4
   \<and> totalFeedback (getFeedbackStats False (snd (snd (runOverlapped alternating
         (startTask (exampleCall 1 noFaults) (exampleFeedback false_positive),
          startTask (exampleCall 2 noFaults) (exampleFeedback correct), emptyStore))))) = 1"
  by (simp add: submitFeedback_def updateStats_def getFeedbackStats_def Let_def exampleCall_def
        statsWriteFails_def noFaults_def emptyStore_def getDefaultStats_def exampleFeedback_def
        alternating_def stepTask_def startTask_def nextStats_def)

text \<open>
  Claim C6 (as amended). A rejected read or write of the feedback log is rethrown by
  \<open>submitFeedback\<close>, answered by the handler with \<open>{success: false, error}\<close>, and leaves
  log and statistics unchanged. When both succeed the call resolves and the log has
  gained the entry; the statistics are then updated (total and the matching counter
  incremented, accuracy recomputed) when their read and write succeed as well, and are
  left as they were when their write is rejected.
\<close>

theorem submitFeedback_failure_modes:
  "(get_feedback_fails (call_faults call) \<or> set_feedback_fails (call_faults call) \<longrightarrow>
      fst (submitFeedback call feedback store) \<noteq> None
      \<and> snd (submitFeedback call feedback store) = store
      \<and> \<not> fr_success (fst (handleFeedbackSubmission w call feedback store))
      \<and> fr_error (fst (handleFeedbackSubmission w call feedback store)) \<noteq> None
      \<and> snd (handleFeedbackSubmission w call feedback store) = store)
   \<and> (\<not> get_feedback_fails (call_faults call) \<and> \<not> set_feedback_fails (call_faults call) \<longrightarrow>
      fst (submitFeedback call feedback store) = None
      \<and> stored_feedback (snd (submitFeedback call feedback store))
          = Some (take 1000 (makeFeedbackData call feedback # logOf store))
      \<and> (\<not> get_stats_fails (call_faults call) \<and> \<not> set_stats_fails (call_faults call) \<longrightarrow>
           statsOf (snd (submitFeedback call feedback store))
             = (let st = bumped (fb_type (userFeedback feedback))
                           (getFeedbackStats False (store \<lparr> stored_feedback :=
                              Some (take 1000 (makeFeedbackData call feedback # logOf store)) \<rparr>))
                in st \<lparr> accuracy := spec_accuracy st \<rparr>))
      \<and> (set_stats_fails (call_faults call) \<longrightarrow>
           stored_stats (snd (submitFeedback call feedback store)) = stored_stats store))"
  by (cases "fb_type (userFeedback feedback)")
     (simp_all add: submitFeedback_def handleFeedbackSubmission_def updateStats_def
        getFeedbackStats_def Let_def statsOf_def logOf_def bumped_def spec_accuracy_def add_ac
        split: prod.splits option.splits)


theorem submitFeedback_failure_modes_witness:
  "get_feedback_fails (call_faults (exampleCall 1 logReadFails))
   \<and> fst (submitFeedback (exampleCall 1 logReadFails) (exampleFeedback correct) emptyStore) \<noteq> None
   \<and> snd (submitFeedback (exampleCall 1 logReadFails) (exampleFeedback correct) emptyStore) = emptyStore
   \<and> \<not> fr_success (fst (handleFeedbackSubmission initialWorker (exampleCall 1 logReadFails)
            (exampleFeedback correct) emptyStore))
   \<and> \<not> get_feedback_fails (call_faults (exampleCall 2 noFaults))
   \<and> \<not> set_feedback_fails (call_faults (exampleCall 2 noFaults))
   \<and> \<not> get_stats_fails (call_faults (exampleCall 2 noFaults))
   \<and> \<not> set_stats_fails (call_faults (exampleCall 2 noFaults))
   \<and> fst (submitFeedback (exampleCall 2 noFaults) (exampleFeedback correct) emptyStore) = None
   \<and> stored_feedback (snd (submitFeedback (exampleCall 2 noFaults) (exampleFeedback correct) emptyStore))
       = Some [makeFeedbackData (exampleCall 2 noFaults) (exampleFeedback correct)]
   \<and> correctClassifications (statsOf (snd (submitFeedback (exampleCall 2 noFaults)
         (exampleFeedback correct) emptyStore))) = 1
   \<and> accuracy (statsOf (snd (submitFeedback (exampleCall 2 noFaults)
         (exampleFeedback correct) emptyStore))) = 1"
proof -
  have h1: "get_feedback_fails (call_faults (exampleCall 1 logReadFails))"
    by (simp add: exampleCall_def logReadFails_def)
  have h2: "\<not> get_feedback_fails (call_faults (exampleCall 2 noFaults))"
    "\<not> set_feedback_fails (call_faults (exampleCall 2 noFaults))"
    "\<not> get_stats_fails (call_faults (exampleCall 2 noFaults))"
    "\<not> set_stats_fails (call_faults (exampleCall 2 noFaults))"
    by (simp_all add: exampleCall_def noFaults_def)
  have t: "fb_type (userFeedback (exampleFeedback correct)) = correct"
    by (simp add: exampleFeedback_def)
  from submitFeedback_failure_modes [of "exampleCall 1 logReadFails" "exampleFeedback correct"
         emptyStore initialWorker]
       submitFeedback_failure_modes [of "exampleCall 2 noFaults" "exampleFeedback correct"
         emptyStore initialWorker]
       h1 h2 t
  show ?thesis
    by (simp add: logOf_def bumped_def getFeedbackStats_def emptyStore_def
          getDefaultStats_def spec_accuracy_def Let_def)
qed

text \<open>
  The claim as stated fails: when only the write of the statistics is rejected, the call
  resolves, the handler answers success, the entry is in the log and no counter moved.
\<close>

theorem C6_counterexample:
  "fst (submitFeedback (exampleCall 1 statsWriteFails) (exampleFeedback false_positive) emptyStore)
     = None
   \<and> fr_success (fst (handleFeedbackSubmission initialWorker (exampleCall 1 statsWriteFails)
        (exampleFeedback false_positive) emptyStore))
   \<and> stored_feedback (snd (submitFeedback (exampleCall 1 statsWriteFails)
        (exampleFeedback false_positive) emptyStore))
       = Some [makeFeedbackData (exampleCall 1 statsWriteFails) (exampleFeedback false_positive)]
   \<and> stored_stats (snd (submitFeedback (exampleCall 1 statsWriteFails)
        (exampleFeedback false_positive) emptyStore)) = None
   \<and> totalFeedback (getFeedbackStats False (snd (submitFeedback (exampleCall 1 statsWriteFails)
        (exampleFeedback false_positive) emptyStore))) = 0"
  by (simp add: submitFeedback_def handleFeedbackSubmission_def updateStats_def
        getFeedbackStats_def Let_def exampleCall_def statsWriteFails_def noFaults_def
        emptyStore_def getDefaultStats_def)

subsection \<open>The export\<close>







section \<open>Properties of the content script\<close>

subsection \<open>Ids\<close>









subsection \<open>Marks\<close>


lemma marked_send [simp]: "marked (sendClassifyText cs t uid) r = marked cs r"
  by (simp add: marked_def sendClassifyText_def hasExtId_def)






subsection \<open>The walker's loop\<close>










subsection \<open>Requests\<close>











end
